theory Spec2Isabelle
  imports Main
begin

section \<open>NodeModal: path-addressed read, projection, merge and write\<close>

text \<open>
  A shallow embedding of \<^verbatim>\<open>src/features/modals/NodeModal/index.tsx\<close>. The component
  reads a JSON document (a string held by a store), resolves the selected node's path in
  it, shows the node's primitive fields, lets the user edit them as text and writes the
  merged node back at the path.

  The embedding follows the source function by function. What the source takes from its
  platform is a parameter of the model: \<^verbatim>\<open>JSON.parse\<close>, \<^verbatim>\<open>JSON.stringify(_, null, 2)\<close>,
  the conversion of a number to a string and the built-in objects that a property read
  can reach are the fields of a record \<open>runtime\<close>; the payload of a JSON number and the
  built-in values are type variables. A thrown exception is a value of type
  \<open>error\<close> (a \<^verbatim>\<open>SyntaxError\<close> of \<^verbatim>\<open>JSON.parse\<close> is the result \<open>None\<close> of
  \<open>JSON_parse\<close>); \<^verbatim>\<open>undefined\<close> is \<open>None\<close> of an option type.
\<close>

subsection \<open>Values\<close>

text \<open>
  What \<^verbatim>\<open>JSON.parse\<close> returns. An object is the list of its own properties in the order
  \<^verbatim>\<open>Object.entries\<close> enumerates them.
\<close>

datatype 'n jsval =
    JNull
  | JBool bool
  | JNum 'n
  | JStr string
  | JArr "'n jsval list"
  | JObj "(string \<times> 'n jsval) list"

text \<open>A path segment (\<^verbatim>\<open>string | number\<close>); a number is an array index.\<close>

datatype seg = Key string | Idx nat

datatype error = TypeError | RangeError | Error string

text \<open>
  The platform. Beside the JSON functions it answers for everything that is not JSON
  data, with values of the type \<open>'b\<close> (functions, prototype objects, the length of an
  array or a string):
  \<^item> \<open>Builtin_get v k\<close> is \<^verbatim>\<open>v[k]\<close> for a JSON value \<open>v\<close> (not \<^verbatim>\<open>null\<close>) and a key
    \<open>k\<close> that names no member, element or character of \<open>v\<close>: a built-in value, or
    \<open>None\<close> for \<^verbatim>\<open>undefined\<close>;
  \<^item> \<open>Builtin_read b s\<close> is \<^verbatim>\<open>b[s]\<close> for a built-in value \<open>b\<close>: it throws, or gives
    \<^verbatim>\<open>undefined\<close> (\<open>None\<close>) or a value, taken as built-in again;
  \<^item> \<open>Builtin_assign b s v\<close> says whether \<^verbatim>\<open>b[s] = v\<close> returns normally (it throws
    otherwise);
  \<^item> \<open>Builtin_json b\<close> is what \<^verbatim>\<open>JSON.stringify\<close>, \<^verbatim>\<open>Object.entries\<close> and the spread see
    of \<open>b\<close>: a number, a string, \<^verbatim>\<open>null\<close>, the object or array of its enumerable own
    properties, or \<open>None\<close> when they see nothing (a function);
  \<^item> \<open>Array_length v\<close> is the length that \<^verbatim>\<open>array.length = v\<close> sets, or \<open>None\<close> when
    \<open>v\<close> converts to no array length and the assignment throws a \<^verbatim>\<open>RangeError\<close>.
\<close>

record ('n, 'b) runtime =
  JSON_parse :: "string \<Rightarrow> 'n jsval option"
  JSON_stringify :: "'n jsval \<Rightarrow> string"
  Number_toString :: "'n \<Rightarrow> string"
  Builtin_get :: "'n jsval \<Rightarrow> string \<Rightarrow> 'b option"
  Builtin_read :: "'b \<Rightarrow> seg \<Rightarrow> error + 'b option"
  Builtin_assign :: "'b \<Rightarrow> seg \<Rightarrow> 'n jsval \<Rightarrow> bool"
  Builtin_json :: "'b \<Rightarrow> 'n jsval option"
  Array_length :: "'n jsval \<Rightarrow> nat option"

text \<open>\<^verbatim>\<open>typeof value !== "object" || value === null\<close>\<close>

fun isPrimitive :: "'n jsval \<Rightarrow> bool" where
  "isPrimitive (JArr xs) = False"
| "isPrimitive (JObj ps) = False"
| "isPrimitive v = True"

subsection \<open>Property keys\<close>

text \<open>
  The decimal numeral of a natural number (the property key of an index), and the test
  for an array index: a key that is the canonical numeral of a number below \<open>2^32 - 1\<close>.
  Own properties with such keys are enumerated first, in ascending numeric order; the
  other keys follow in the order of their creation.
\<close>

fun showNat :: "nat \<Rightarrow> string" where
  "showNat n =
     (if n < 10 then [''0123456789'' ! n]
      else showNat (n div 10) @ [''0123456789'' ! (n mod 10)])"

declare showNat.simps [simp del]

definition natOfDigits :: "string \<Rightarrow> nat" where
  "natOfDigits k = foldl (\<lambda>a c. 10 * a + (of_char c - 48)) 0 k"

definition arrayIndex :: "string \<Rightarrow> nat option" where
  "arrayIndex k =
     (let n = natOfDigits k
      in if showNat n = k \<and> n < 4294967295 then Some n else None)"

fun propKey :: "seg \<Rightarrow> string" where
  "propKey (Key k) = k"
| "propKey (Idx n) = showNat n"

fun segIndex :: "seg \<Rightarrow> nat option" where
  "segIndex (Idx n) = (if n < 4294967295 then Some n else None)"
| "segIndex (Key k) = arrayIndex k"

subsection \<open>Own properties of an object\<close>

definition hasOwn :: "string \<Rightarrow> (string \<times> 'v) list \<Rightarrow> bool" where
  "hasOwn k ps = (k \<in> set (map fst ps))"

text \<open>Writing an own property that exists keeps its place.\<close>

fun updateOwn :: "string \<Rightarrow> 'v \<Rightarrow> (string \<times> 'v) list \<Rightarrow> (string \<times> 'v) list" where
  "updateOwn k v [] = []"
| "updateOwn k v (p # ps) = (if fst p = k then (k, v) # ps else p # updateOwn k v ps)"

text \<open>A new array-index key goes before the first key that is not a smaller index.\<close>

fun insertIndex :: "nat \<Rightarrow> string \<Rightarrow> 'v \<Rightarrow> (string \<times> 'v) list \<Rightarrow> (string \<times> 'v) list" where
  "insertIndex n k v [] = [(k, v)]"
| "insertIndex n k v (p # ps) =
     (case arrayIndex (fst p) of
        Some m \<Rightarrow> if m < n then p # insertIndex n k v ps else (k, v) # p # ps
      | None \<Rightarrow> (k, v) # p # ps)"

text \<open>
  \<^verbatim>\<open>CreateDataProperty\<close>: what a computed key of an object literal
  (\<^verbatim>\<open>{ ...prev, [key]: value }\<close>) does.
\<close>

definition defineProp :: "string \<Rightarrow> 'v \<Rightarrow> (string \<times> 'v) list \<Rightarrow> (string \<times> 'v) list" where
  "defineProp k v ps =
     (if hasOwn k ps then updateOwn k v ps
      else case arrayIndex k of
             Some n \<Rightarrow> insertIndex n k v ps
           | None \<Rightarrow> ps @ [(k, v)])"

text \<open>
  The assignment \<^verbatim>\<open>obj[k] = v\<close> on an ordinary object. It differs from
  \<^verbatim>\<open>CreateDataProperty\<close> at one key: when \<^verbatim>\<open>__proto__\<close> is not an own property, the
  assignment reaches the accessor of \<^verbatim>\<open>Object.prototype\<close>, which creates no own
  property (and does not throw). \<^verbatim>\<open>JSON.parse\<close> and the spread of an object do create
  \<^verbatim>\<open>__proto__\<close> as an own property when the text has that key; a later assignment
  then writes the own property like any other.
\<close>

definition setProp :: "string \<Rightarrow> 'v \<Rightarrow> (string \<times> 'v) list \<Rightarrow> (string \<times> 'v) list" where
  "setProp k v ps =
     (if \<not> hasOwn k ps \<and> k = ''__proto__'' then ps else defineProp k v ps)"

text \<open>
  The invariant of an object's own property list: the keys are distinct, array indices
  come first and ascend.
\<close>

fun keyBefore :: "string \<Rightarrow> string \<Rightarrow> bool" where
  "keyBefore k k' =
     (case arrayIndex k of
        Some m \<Rightarrow> (case arrayIndex k' of Some n \<Rightarrow> m < n | None \<Rightarrow> True)
      | None \<Rightarrow> (case arrayIndex k' of Some n \<Rightarrow> False | None \<Rightarrow> True))"

definition ownOrder :: "(string \<times> 'v) list \<Rightarrow> bool" where
  "ownOrder ps = (distinct (map fst ps) \<and> sorted_wrt keyBefore (map fst ps))"

subsection \<open>Reading a property\<close>

text \<open>
  The value of \<^verbatim>\<open>current\<close> during a walk: \<^verbatim>\<open>undefined\<close>, a node of the parsed
  document, or a built-in value that a read has reached outside the document.
\<close>

datatype ('n, 'b) current = Undefined | Node "'n jsval" | Builtin 'b

text \<open>What \<open>Builtin_get\<close> finds under a key that names nothing in the value itself.\<close>

definition inherited :: "('n, 'b) runtime \<Rightarrow> 'n jsval \<Rightarrow> string \<Rightarrow> ('n, 'b) current" where
  "inherited rt v k = (case Builtin_get rt v k of None \<Rightarrow> Undefined | Some b \<Rightarrow> Builtin b)"

text \<open>
  \<^verbatim>\<open>current[segment]\<close>. Reading from \<^verbatim>\<open>undefined\<close> or \<^verbatim>\<open>null\<close> throws a
  \<^verbatim>\<open>TypeError\<close>. A member of an object, an element of an array and a character of a
  string are read from the value; every other key is looked up in the built-in
  properties and prototypes of the value, which the platform supplies.
\<close>

fun getProp :: "('n, 'b) runtime \<Rightarrow> ('n, 'b) current \<Rightarrow> seg \<Rightarrow> error + ('n, 'b) current" where
  "getProp rt Undefined s = Inl TypeError"
| "getProp rt (Builtin b) s =
     (case Builtin_read rt b s of
        Inl e \<Rightarrow> Inl e
      | Inr None \<Rightarrow> Inr Undefined
      | Inr (Some b') \<Rightarrow> Inr (Builtin b'))"
| "getProp rt (Node JNull) s = Inl TypeError"
| "getProp rt (Node (JObj ps)) s =
     (case map_of ps (propKey s) of
        Some v \<Rightarrow> Inr (Node v)
      | None \<Rightarrow> Inr (inherited rt (JObj ps) (propKey s)))"
| "getProp rt (Node (JArr xs)) s =
     (case segIndex s of
        Some n \<Rightarrow>
          if n < length xs then Inr (Node (xs ! n))
          else Inr (inherited rt (JArr xs) (propKey s))
      | None \<Rightarrow> Inr (inherited rt (JArr xs) (propKey s)))"
| "getProp rt (Node (JStr cs)) s =
     (case segIndex s of
        Some n \<Rightarrow>
          if n < length cs then Inr (Node (JStr [cs ! n]))
          else Inr (inherited rt (JStr cs) (propKey s))
      | None \<Rightarrow> Inr (inherited rt (JStr cs) (propKey s)))"
| "getProp rt (Node (JBool b)) s = Inr (inherited rt (JBool b) (propKey s))"
| "getProp rt (Node (JNum n)) s = Inr (inherited rt (JNum n) (propKey s))"

text \<open>\<^verbatim>\<open>for (const segment of path) current = current[segment]\<close>\<close>

fun walk ::
  "('n, 'b) runtime \<Rightarrow> ('n, 'b) current \<Rightarrow> seg list \<Rightarrow> error + ('n, 'b) current" where
  "walk rt current [] = Inr current"
| "walk rt current (s # ss) =
     (case getProp rt current s of
        Inl e \<Rightarrow> Inl e
      | Inr nxt \<Rightarrow> walk rt nxt ss)"

text \<open>
  What the component sees of the value a walk ends at, when it serialises it, lists its
  entries or spreads it: \<^verbatim>\<open>undefined\<close> is \<open>None\<close>.
\<close>

fun image :: "('n, 'b) runtime \<Rightarrow> ('n, 'b) current \<Rightarrow> 'n jsval option" where
  "image rt Undefined = None"
| "image rt (Node v) = Some v"
| "image rt (Builtin b) = Builtin_json rt b"

subsection \<open>Writing a property\<close>

text \<open>
  \<^verbatim>\<open>current[lastKey] = parsedNewValue\<close> on a node of the document, in a module (strict
  mode).
  \<^item> On an object it is \<open>setProp\<close>.
  \<^item> On an array an index below the length replaces the element and an index beyond it
    extends the array (\<^verbatim>\<open>JSON.stringify\<close> renders the holes as \<^verbatim>\<open>null\<close>); the key
    \<^verbatim>\<open>length\<close> cuts or extends the array to the length the value converts to, or throws
    a \<^verbatim>\<open>RangeError\<close>; any other key leaves the elements as they are.
  \<^item> On \<^verbatim>\<open>null\<close> it throws a \<^verbatim>\<open>TypeError\<close>. On a string, a number or a boolean it
    throws a \<^verbatim>\<open>TypeError\<close> too, except for the key \<^verbatim>\<open>__proto__\<close>, where the accessor
    of \<^verbatim>\<open>Object.prototype\<close> returns without doing anything.
\<close>

definition resize :: "nat \<Rightarrow> 'n jsval list \<Rightarrow> 'n jsval list" where
  "resize len xs =
     (if len \<le> length xs then take len xs else xs @ replicate (len - length xs) JNull)"

definition assignPrimitive :: "'n jsval \<Rightarrow> seg \<Rightarrow> error + 'n jsval" where
  "assignPrimitive v s = (if propKey s = ''__proto__'' then Inr v else Inl TypeError)"

fun assignProp :: "('n, 'b) runtime \<Rightarrow> 'n jsval \<Rightarrow> seg \<Rightarrow> 'n jsval \<Rightarrow> error + 'n jsval" where
  "assignProp rt JNull s v = Inl TypeError"
| "assignProp rt (JObj ps) s v = Inr (JObj (setProp (propKey s) v ps))"
| "assignProp rt (JArr xs) s v =
     (case segIndex s of
        Some n \<Rightarrow>
          Inr (JArr (if n < length xs then xs[n := v]
                     else xs @ replicate (n - length xs) JNull @ [v]))
      | None \<Rightarrow>
          if propKey s = ''length'' then
            (case Array_length rt v of
               None \<Rightarrow> Inl RangeError
             | Some len \<Rightarrow> Inr (JArr (resize len xs)))
          else Inr (JArr xs))"
| "assignProp rt (JStr cs) s v = assignPrimitive (JStr cs) s"
| "assignProp rt (JBool b) s v = assignPrimitive (JBool b) s"
| "assignProp rt (JNum n) s v = assignPrimitive (JNum n) s"

text \<open>
  The source walks to the parent of the target and assigns there, mutating the tree that
  \<^verbatim>\<open>JSON.parse\<close> has just built. The tree shares nothing, so the mutation is the
  rebuilding of the nodes along the path: \<open>replaceChild\<close> puts the updated child back
  where it was read.
\<close>

fun replaceChild :: "'n jsval \<Rightarrow> seg \<Rightarrow> 'n jsval \<Rightarrow> 'n jsval" where
  "replaceChild (JObj ps) s c = JObj (updateOwn (propKey s) c ps)"
| "replaceChild (JArr xs) s c =
     (case segIndex s of Some n \<Rightarrow> JArr (xs[n := c]) | None \<Rightarrow> JArr xs)"
| "replaceChild v s c = v"

text \<open>
  When the walk has left the document for a built-in value, the rest of the walk and the
  assignment happen there: they throw or they return, and the document stays as it was
  parsed (no built-in value refers to a node of the tree just parsed).
\<close>

fun assignBuiltin ::
  "('n, 'b) runtime \<Rightarrow> 'b \<Rightarrow> seg list \<Rightarrow> seg \<Rightarrow> 'n jsval \<Rightarrow> error + unit" where
  "assignBuiltin rt b [] lastKey v =
     (if Builtin_assign rt b lastKey v then Inr () else Inl TypeError)"
| "assignBuiltin rt b (s # ss) lastKey v =
     (case Builtin_read rt b s of
        Inl e \<Rightarrow> Inl e
      | Inr None \<Rightarrow> Inl TypeError
      | Inr (Some b') \<Rightarrow> assignBuiltin rt b' ss lastKey v)"

fun assignAtPath ::
  "('n, 'b) runtime \<Rightarrow> 'n jsval \<Rightarrow> seg list \<Rightarrow> seg \<Rightarrow> 'n jsval \<Rightarrow> error + 'n jsval" where
  "assignAtPath rt current [] lastKey v = assignProp rt current lastKey v"
| "assignAtPath rt current (s # ss) lastKey v =
     (case getProp rt (Node current) s of
        Inl e \<Rightarrow> Inl e
      | Inr Undefined \<Rightarrow> Inl TypeError
      | Inr (Builtin b) \<Rightarrow>
          (case assignBuiltin rt b ss lastKey v of
             Inl e \<Rightarrow> Inl e
           | Inr u \<Rightarrow> Inr current)
      | Inr (Node child) \<Rightarrow>
          (case assignAtPath rt child ss lastKey v of
             Inl e \<Rightarrow> Inl e
           | Inr child' \<Rightarrow> Inr (replaceChild current s child')))"

subsection \<open>updateJsonAtPath\<close>

text \<open>\<^verbatim>\<open>!path || path.length === 0\<close>\<close>

fun noPath :: "seg list option \<Rightarrow> bool" where
  "noPath None = True"
| "noPath (Some ss) = (ss = [])"

fun segments :: "seg list option \<Rightarrow> seg list" where
  "segments None = []"
| "segments (Some ss) = ss"

text \<open>
  Lines 33 to 57. Every exception raised inside the \<^verbatim>\<open>try\<close> is caught and replaced by
  \<^verbatim>\<open>new Error("Invalid JSON format")\<close>.
\<close>

definition updateJsonAtPath ::
  "('n, 'b) runtime \<Rightarrow> string \<Rightarrow> seg list option \<Rightarrow> string \<Rightarrow> error + string" where
  "updateJsonAtPath rt jsonString path newValue =
     (case JSON_parse rt jsonString of
        None \<Rightarrow> Inl (Error ''Invalid JSON format'')
      | Some parsedJson \<Rightarrow>
          (case JSON_parse rt newValue of
             None \<Rightarrow> Inl (Error ''Invalid JSON format'')
           | Some parsedNewValue \<Rightarrow>
               if noPath path then Inr (JSON_stringify rt parsedNewValue)
               else
                 (case assignAtPath rt parsedJson (butlast (segments path))
                         (last (segments path)) parsedNewValue of
                    Inl e \<Rightarrow> Inl (Error ''Invalid JSON format'')
                  | Inr updated \<Rightarrow> Inr (JSON_stringify rt updated))))"

subsection \<open>The selected node\<close>

text \<open>
  \<^verbatim>\<open>NodeData\<close> is declared in \<^verbatim>\<open>types/graph\<close>, which is not among the sources. The
  records below have the fields the component reads: a row's \<^verbatim>\<open>key\<close>, \<^verbatim>\<open>value\<close> (a
  primitive) and \<^verbatim>\<open>type\<close>, and a node's \<^verbatim>\<open>text\<close> (its rows) and optional \<^verbatim>\<open>path\<close>.
\<close>

datatype 'n prim = PNull | PBool bool | PNum 'n | PStr string

record 'n nodeRow =
  row_key :: "string option"
  row_value :: "'n prim"
  row_type :: string

record 'n nodeData =
  nd_text :: "'n nodeRow list"
  nd_path :: "seg list option"

fun ofPrim :: "'n prim \<Rightarrow> 'n jsval" where
  "ofPrim PNull = JNull"
| "ofPrim (PBool b) = JBool b"
| "ofPrim (PNum n) = JNum n"
| "ofPrim (PStr s) = JStr s"

text \<open>The template literal \<^verbatim>\<open>`${value}`\<close>.\<close>

fun template :: "('n, 'b) runtime \<Rightarrow> 'n prim \<Rightarrow> string" where
  "template rt PNull = ''null''"
| "template rt (PBool b) = (if b then ''true'' else ''false'')"
| "template rt (PNum n) = Number_toString rt n"
| "template rt (PStr s) = s"

text \<open>A key is truthy when it is neither \<^verbatim>\<open>null\<close> nor the empty string.\<close>

fun truthy :: "string option \<Rightarrow> bool" where
  "truthy None = False"
| "truthy (Some s) = (s \<noteq> [])"

text \<open>
  The object that lines 16 to 21 build: its own properties, and whether it still has
  \<^verbatim>\<open>Object.prototype\<close> as its prototype. The rows are an array, so a key can come
  twice, and the assignment to \<^verbatim>\<open>__proto__\<close> depends on what came before: while the
  object has its prototype and no own property of that name, the accessor takes the
  value, drops the prototype when the value is \<^verbatim>\<open>null\<close> and ignores any other
  primitive; once the prototype is gone, \<^verbatim>\<open>__proto__\<close> is a key like any other.
\<close>

record 'n rowObject =
  own :: "(string \<times> 'n jsval) list"
  hasPrototype :: bool

definition assignRow :: "string \<Rightarrow> 'n prim \<Rightarrow> 'n rowObject \<Rightarrow> 'n rowObject" where
  "assignRow k p obj =
     (if k = ''__proto__'' \<and> \<not> hasOwn k (own obj) \<and> hasPrototype obj
      then (if p = PNull then obj\<lparr>hasPrototype := False\<rparr> else obj)
      else obj\<lparr>own := defineProp k (ofPrim p) (own obj)\<rparr>)"

text \<open>The body of the \<^verbatim>\<open>forEach\<close> of lines 17 to 21.\<close>

definition addRow :: "'n rowObject \<Rightarrow> 'n nodeRow \<Rightarrow> 'n rowObject" where
  "addRow obj row =
     (if row_type row \<noteq> ''array'' \<and> row_type row \<noteq> ''object'' then
        (case row_key row of
           None \<Rightarrow> obj
         | Some k \<Rightarrow> if k \<noteq> [] then assignRow k (row_value row) obj else obj)
      else obj)"

text \<open>Lines 12 to 23. The caller passes \<^verbatim>\<open>nodeData?.text ?? []\<close>, always an array.\<close>

definition normalizeNodeData :: "('n, 'b) runtime \<Rightarrow> 'n nodeRow list \<Rightarrow> string" where
  "normalizeNodeData rt nodeRows =
     (if nodeRows = [] then ''{}''
      else if length nodeRows = 1 \<and> \<not> truthy (row_key (hd nodeRows))
        then template rt (row_value (hd nodeRows))
      else JSON_stringify rt
             (JObj (own (foldl addRow \<lparr>own = [], hasPrototype = True\<rparr> nodeRows))))"

subsection \<open>The component\<close>

text \<open>
  The component's own state (its three \<^verbatim>\<open>useState\<close> cells) and what it reads from
  outside: the \<^verbatim>\<open>opened\<close> prop, the document text of the \<^verbatim>\<open>useJson\<close> store and the
  selected node of the \<^verbatim>\<open>useGraph\<close> store (\<^verbatim>\<open>null\<close> when there is none).
  \<open>optimisticContent\<close> is the optimistic overlay: \<open>None\<close> is \<^verbatim>\<open>null\<close>.
\<close>

record state =
  isEditing :: bool
  editedValues :: "(string \<times> string) list"
  optimisticContent :: "string option"

record 'n env =
  opened :: bool
  json :: string
  nodeData :: "'n nodeData option"

text \<open>\<^verbatim>\<open>nodeData?.path\<close> and \<^verbatim>\<open>nodeData?.text ?? []\<close>\<close>

definition nodePath :: "'n env \<Rightarrow> seg list option" where
  "nodePath e = (case nodeData e of None \<Rightarrow> None | Some nd \<Rightarrow> nd_path nd)"

definition nodeText :: "'n env \<Rightarrow> 'n nodeRow list" where
  "nodeText e = (case nodeData e of None \<Rightarrow> [] | Some nd \<Rightarrow> nd_text nd)"

text \<open>
  Lines 84 to 89 (and again 188 to 193): the primitive-valued entries, assigned one by
  one to a fresh object.
\<close>

definition filterPrimitives :: "(string \<times> 'n jsval) list \<Rightarrow> (string \<times> 'n jsval) list" where
  "filterPrimitives entries =
     foldl (\<lambda>filtered (key, v). if isPrimitive v then setProp key v filtered else filtered)
       [] entries"

text \<open>
  Lines 82 to 93, on the value the walk ended at: an object is shown by its primitive
  entries, anything else as it is. The result is \<^verbatim>\<open>undefined\<close> (\<open>None\<close>) when the
  path ends at an absent property or at a function, since \<^verbatim>\<open>JSON.stringify\<close> of both
  is \<^verbatim>\<open>undefined\<close>.
\<close>

fun showNode :: "('n, 'b) runtime \<Rightarrow> 'n jsval option \<Rightarrow> string option" where
  "showNode rt None = None"
| "showNode rt (Some (JObj entries)) = Some (JSON_stringify rt (JObj (filterPrimitives entries)))"
| "showNode rt (Some current) = Some (JSON_stringify rt current)"

text \<open>
  Lines 67 to 97. An overlay that is \<^verbatim>\<open>null\<close> or the empty string is falsy.
\<close>

definition getFreshContent :: "('n, 'b) runtime \<Rightarrow> 'n env \<Rightarrow> state \<Rightarrow> string option" where
  "getFreshContent rt e st =
     (if truthy (optimisticContent st) then optimisticContent st
      else
        (case JSON_parse rt (json e) of
           None \<Rightarrow> Some (normalizeNodeData rt (nodeText e))
         | Some parsedJson \<Rightarrow>
             if noPath (nodePath e) then Some (JSON_stringify rt parsedJson)
             else
               (case walk rt (Node parsedJson) (segments (nodePath e)) of
                  Inl err \<Rightarrow> Some (normalizeNodeData rt (nodeText e))
                | Inr current \<Rightarrow> showNode rt (image rt current))))"

text \<open>
  Lines 102 to 117; the \<^verbatim>\<open>catch\<close> returns the empty object. The caller only spreads
  the result, so a built-in value is returned as what the spread sees of it.
\<close>

definition getFullNodeObject :: "('n, 'b) runtime \<Rightarrow> 'n env \<Rightarrow> 'n jsval option" where
  "getFullNodeObject rt e =
     (case JSON_parse rt (json e) of
        None \<Rightarrow> Some (JObj [])
      | Some parsedJson \<Rightarrow>
          if noPath (nodePath e) then Some parsedJson
          else
            (case walk rt (Node parsedJson) (segments (nodePath e)) of
               Inl err \<Rightarrow> Some (JObj [])
             | Inr current \<Rightarrow> image rt current))"

text \<open>
  Line 128: a string is shown as it is, every other primitive as its JSON text.
\<close>

fun valueText :: "('n, 'b) runtime \<Rightarrow> 'n jsval \<Rightarrow> string" where
  "valueText rt (JStr s) = s"
| "valueText rt v = JSON_stringify rt v"

text \<open>Lines 123 to 132, on the parsed content.\<close>

fun keyValues :: "('n, 'b) runtime \<Rightarrow> 'n jsval \<Rightarrow> (string \<times> string) list" where
  "keyValues rt (JObj entries) =
     foldl (\<lambda>result (key, v).
              if isPrimitive v then setProp key (valueText rt v) result else result)
       [] entries"
| "keyValues rt parsed = []"

text \<open>
  Lines 120 to 137. \<^verbatim>\<open>JSON.parse\<close> converts its argument to a string first, so
  \<^verbatim>\<open>undefined\<close> is parsed as the text \<^verbatim>\<open>undefined\<close>; a failure to parse is caught.
\<close>

definition parseContentToKeyValues ::
  "('n, 'b) runtime \<Rightarrow> string option \<Rightarrow> (string \<times> string) list" where
  "parseContentToKeyValues rt content =
     (case JSON_parse rt (case content of None \<Rightarrow> ''undefined'' | Some c \<Rightarrow> c) of
        None \<Rightarrow> []
      | Some parsed \<Rightarrow> keyValues rt parsed)"

subsection \<open>Handlers\<close>

text \<open>
  A handler runs to its end before React renders again: the state setters it calls are
  queued and applied afterwards, in the order of the calls. A handler is therefore the
  list of the calls it makes, in program order, computed from the state and the
  surroundings of the render it belongs to; \<open>run\<close> applies the queued state updates.
  \<open>SetContents\<close> is \<^verbatim>\<open>useFile.getState().setContents\<close>, the hand-over to the external
  store (the store's new text reaches the component as the \<open>json\<close> of a later render);
  the two toasts are the user-visible notifications.
\<close>

datatype call =
    SetIsEditing bool
  | SetEditedValues "(string \<times> string) list"
  | PutEditedValue string string
  | SetOptimisticContent "string option"
  | SetContents string bool
  | ToastSuccess string
  | ToastError string
  | OnClose

fun apply_call :: "state \<Rightarrow> call \<Rightarrow> state" where
  "apply_call st (SetIsEditing b) = st\<lparr>isEditing := b\<rparr>"
| "apply_call st (SetEditedValues kvs) = st\<lparr>editedValues := kvs\<rparr>"
| "apply_call st (PutEditedValue k v) = st\<lparr>editedValues := defineProp k v (editedValues st)\<rparr>"
| "apply_call st (SetOptimisticContent c) = st\<lparr>optimisticContent := c\<rparr>"
| "apply_call st (SetContents contents hasChanges) = st"
| "apply_call st (ToastSuccess msg) = st"
| "apply_call st (ToastError msg) = st"
| "apply_call st OnClose = st"

definition run :: "call list \<Rightarrow> state \<Rightarrow> state" where
  "run calls st = foldl apply_call st calls"

text \<open>Lines 152 to 167.\<close>

definition handleEdit :: "('n, 'b) runtime \<Rightarrow> 'n env \<Rightarrow> state \<Rightarrow> call list" where
  "handleEdit rt e st =
     [SetIsEditing True,
      SetEditedValues (parseContentToKeyValues rt (getFreshContent rt e st))]"

definition handleCancel :: "('n, 'b) runtime \<Rightarrow> 'n env \<Rightarrow> state \<Rightarrow> call list" where
  "handleCancel rt e st =
     [SetIsEditing False,
      SetEditedValues (parseContentToKeyValues rt (getFreshContent rt e st))]"

definition handleValueChange :: "string \<Rightarrow> string \<Rightarrow> call list" where
  "handleValueChange k v = [PutEditedValue k v]"

text \<open>Lines 208 to 212.\<close>

definition handleClose :: "call list" where
  "handleClose = [SetIsEditing False, SetOptimisticContent None, OnClose]"

text \<open>The two effects, lines 139 to 150, in the order they are declared.\<close>

definition syncEffect :: "('n, 'b) runtime \<Rightarrow> 'n env \<Rightarrow> state \<Rightarrow> call list" where
  "syncEffect rt e st =
     (if opened e \<and> \<not> isEditing st
      then [SetEditedValues (parseContentToKeyValues rt (getFreshContent rt e st))]
      else [])"

definition openEffect :: "'n env \<Rightarrow> call list" where
  "openEffect e = (if opened e then [SetOptimisticContent None] else [])"

subsection \<open>Saving\<close>

text \<open>
  \<^verbatim>\<open>{ ...fullNodeObject }\<close>: the own enumerable properties of the value. \<^verbatim>\<open>undefined\<close>,
  \<^verbatim>\<open>null\<close>, numbers and booleans have none; an array has its elements under their
  indices, a string its characters.
\<close>

fun spread :: "'n jsval option \<Rightarrow> (string \<times> 'n jsval) list" where
  "spread (Some (JObj entries)) = entries"
| "spread (Some (JArr xs)) = zip (map showNat [0 ..< length xs]) xs"
| "spread (Some (JStr cs)) = zip (map showNat [0 ..< length cs]) (map (\<lambda>c. JStr [c]) cs)"
| "spread v = []"

text \<open>Lines 176 to 183: one edited field.\<close>

definition mergeEdit ::
  "('n, 'b) runtime \<Rightarrow> (string \<times> 'n jsval) list \<Rightarrow> string \<times> string \<Rightarrow> (string \<times> 'n jsval) list" where
  "mergeEdit rt mergedObj kv =
     (case JSON_parse rt (snd kv) of
        Some parsed \<Rightarrow> setProp (fst kv) parsed mergedObj
      | None \<Rightarrow> setProp (fst kv) (JStr (snd kv)) mergedObj)"

text \<open>Lines 175 to 183: the edits applied to a shallow copy of the node.\<close>

definition mergeEdits ::
  "('n, 'b) runtime \<Rightarrow> 'n jsval option \<Rightarrow> (string \<times> string) list \<Rightarrow> (string \<times> 'n jsval) list" where
  "mergeEdits rt fullNodeObject edits = foldl (mergeEdit rt) (spread fullNodeObject) edits"

definition mergedNode :: "('n, 'b) runtime \<Rightarrow> 'n env \<Rightarrow> state \<Rightarrow> (string \<times> 'n jsval) list" where
  "mergedNode rt e st = mergeEdits rt (getFullNodeObject rt e) (editedValues st)"

text \<open>Line 185, and lines 188 to 194: the text the overlay is set to.\<close>

definition mergedJson :: "('n, 'b) runtime \<Rightarrow> 'n env \<Rightarrow> state \<Rightarrow> string" where
  "mergedJson rt e st = JSON_stringify rt (JObj (mergedNode rt e st))"

definition optimisticView :: "('n, 'b) runtime \<Rightarrow> 'n env \<Rightarrow> state \<Rightarrow> string" where
  "optimisticView rt e st = JSON_stringify rt (JObj (filterPrimitives (mergedNode rt e st)))"

text \<open>
  Lines 169 to 206. Nothing before the call of \<^verbatim>\<open>updateJsonAtPath\<close> can throw: the
  lookup of the node and the parsing of each field have their own \<^verbatim>\<open>catch\<close>. The only
  exception that reaches the outer \<^verbatim>\<open>catch\<close> is the \<^verbatim>\<open>Error\<close> of
  \<^verbatim>\<open>updateJsonAtPath\<close>, whose message is shown; the last case below is the
  fallback text of line 204, which no run reaches. The store's \<^verbatim>\<open>setContents\<close>, the
  state setters and the toasts are taken not to throw.
\<close>

definition handleSave :: "('n, 'b) runtime \<Rightarrow> 'n env \<Rightarrow> state \<Rightarrow> call list" where
  "handleSave rt e st =
     SetOptimisticContent (Some (optimisticView rt e st)) #
     (case updateJsonAtPath rt (json e) (nodePath e) (mergedJson rt e st) of
        Inr updatedJson \<Rightarrow>
          [SetContents updatedJson True, SetIsEditing False,
           ToastSuccess ''JSON updated successfully'']
      | Inl (Error msg) \<Rightarrow> [ToastError msg]
      | Inl other \<Rightarrow> [ToastError ''Failed to update JSON''])"

subsection \<open>A sample runtime\<close>

text \<open>
  The examples below run the model on concrete documents. \<open>printJson 0\<close> is
  \<^verbatim>\<open>JSON.stringify(_, null, 2)\<close> on values whose numbers are integers and whose strings
  hold printable characters: two spaces of indentation per level, one member or element
  per line, \<^verbatim>\<open>[]\<close> and \<^verbatim>\<open>{}\<close> for the empty array and object.
\<close>

definition showInt :: "int \<Rightarrow> string" where
  "showInt i = (if i < 0 then ''-'' @ showNat (nat (- i)) else showNat (nat i))"

definition quoted :: "string \<Rightarrow> string" where
  "quoted s =
     [CHR 0x22] @
     concat (map (\<lambda>c. if c = CHR 0x22 \<or> c = CHR 0x5C then [CHR 0x5C, c] else [c]) s) @
     [CHR 0x22]"

fun indent :: "nat \<Rightarrow> string" where
  "indent 0 = []"
| "indent (Suc depth) = ''  '' @ indent depth"

definition newline :: "nat \<Rightarrow> string" where
  "newline depth = CHR 0x0A # indent depth"

fun joinWith :: "string \<Rightarrow> string list \<Rightarrow> string" where
  "joinWith sep [] = []"
| "joinWith sep [x] = x"
| "joinWith sep (x # y # ys) = x @ sep @ joinWith sep (y # ys)"

fun printJson :: "nat \<Rightarrow> int jsval \<Rightarrow> string" where
  "printJson depth JNull = ''null''"
| "printJson depth (JBool b) = (if b then ''true'' else ''false'')"
| "printJson depth (JNum n) = showInt n"
| "printJson depth (JStr s) = quoted s"
| "printJson depth (JArr xs) =
     (if xs = [] then ''[]''
      else ''['' @ newline (Suc depth) @
           joinWith ('','' @ newline (Suc depth)) (map (printJson (Suc depth)) xs) @
           newline depth @ '']'')"
| "printJson depth (JObj ps) =
     (if ps = [] then ''{}''
      else ''{'' @ newline (Suc depth) @
           joinWith ('','' @ newline (Suc depth))
             (map (\<lambda>p. quoted (fst p) @ '': '' @ printJson (Suc depth) (snd p)) ps) @
           newline depth @ ''}'')"

text \<open>
  The documents of the examples: \<^verbatim>\<open>{"a":{"b":1,"c":[1,2]}}\<close> with its node at
  \<^verbatim>\<open>["a"]\<close>, and \<^verbatim>\<open>{"x":5}\<close>.
\<close>

definition nodeA :: "int jsval" where
  "nodeA = JObj [(''b'', JNum 1), (''c'', JArr [JNum 1, JNum 2])]"

definition docA :: "int jsval" where
  "docA = JObj [(''a'', nodeA)]"

definition docX :: "int jsval" where
  "docX = JObj [(''x'', JNum 5)]"

text \<open>
  The sample parser agrees with \<^verbatim>\<open>JSON.parse\<close> on every text the examples hand to it:
  the two documents as the store holds them, the printed form of each value of
  \<open>sampleValues\<close>, and texts that are not JSON (\<^verbatim>\<open>hello\<close>, the truncated document),
  on which it fails. It knows no other text.
\<close>

definition sampleTexts :: "(string \<times> int jsval) list" where
  \<open>sampleTexts = [(''{"a":{"b":1,"c":[1,2]}}'', docA), (''{"x":5}'', docX)]\<close>

definition sampleValues :: "int jsval list" where
  "sampleValues =
     [JNum 1, JNum 2, JNum 5,
      docA, nodeA,
      JObj [(''b'', JNum 5), (''c'', JArr [JNum 1, JNum 2])],
      JObj [(''b'', JNum 5)],
      JObj [(''b'', JStr ''hello''), (''c'', JArr [JNum 1, JNum 2])],
      docX,
      JObj [(''x'', JStr ''hello'')],
      JObj [(''x'', JNum 1)],
      JObj [(''x'', JNum 2)]]"

definition sampleParse :: "string \<Rightarrow> int jsval option" where
  "sampleParse s =
     (case map_of sampleTexts s of
        Some v \<Rightarrow> Some v
      | None \<Rightarrow> find (\<lambda>v. printJson 0 v = s) sampleValues)"

text \<open>
  The sample platform has two built-in values, \<^verbatim>\<open>Object.prototype\<close> and the length of
  an array. It agrees with the platform on the reads and writes the examples make:
  \<^verbatim>\<open>__proto__\<close> of an object, \<^verbatim>\<open>length\<close> of an array, keys that name nothing in a
  JSON value or in \<^verbatim>\<open>Object.prototype\<close>, an assignment to a new key of
  \<^verbatim>\<open>Object.prototype\<close>, and a number assigned to \<^verbatim>\<open>length\<close>. It knows no other
  built-in name.
\<close>

datatype builtin = ObjectPrototype | ArrayLength nat

fun sampleGet :: "int jsval \<Rightarrow> string \<Rightarrow> builtin option" where
  "sampleGet (JObj ps) k = (if k = ''__proto__'' then Some ObjectPrototype else None)"
| "sampleGet (JArr xs) k = (if k = ''length'' then Some (ArrayLength (length xs)) else None)"
| "sampleGet v k = None"

fun sampleAssign :: "builtin \<Rightarrow> seg \<Rightarrow> int jsval \<Rightarrow> bool" where
  "sampleAssign ObjectPrototype s v = True"
| "sampleAssign (ArrayLength n) s v = (propKey s = ''__proto__'')"

fun sampleJson :: "builtin \<Rightarrow> int jsval option" where
  "sampleJson ObjectPrototype = Some (JObj [])"
| "sampleJson (ArrayLength n) = Some (JNum (int n))"

fun sampleLength :: "int jsval \<Rightarrow> nat option" where
  "sampleLength (JNum n) = (if 0 \<le> n \<and> n < 4294967296 then Some (nat n) else None)"
| "sampleLength v = None"

definition sampleRuntime :: "(int, builtin) runtime" where
  "sampleRuntime =
     \<lparr>JSON_parse = sampleParse, JSON_stringify = printJson 0, Number_toString = showInt,
      Builtin_get = sampleGet, Builtin_read = (\<lambda>b s. Inr None),
      Builtin_assign = sampleAssign, Builtin_json = sampleJson,
      Array_length = sampleLength\<rparr>"

text \<open>The modal open on the node at \<^verbatim>\<open>["a"]\<close>, and on the root of \<^verbatim>\<open>{"x":5}\<close>.\<close>

definition envA :: "int env" where
  \<open>envA =
     \<lparr>opened = True, json = ''{"a":{"b":1,"c":[1,2]}}'',
      nodeData = Some \<lparr>nd_text = [\<lparr>row_key = Some ''b'', row_value = PNum 1, row_type = ''number''\<rparr>],
                        nd_path = Some [Key ''a'']\<rparr>\<rparr>\<close>

definition envX :: "int env" where
  \<open>envX =
     \<lparr>opened = True, json = ''{"x":5}'',
      nodeData = Some \<lparr>nd_text = [\<lparr>row_key = Some ''x'', row_value = PNum 5, row_type = ''number''\<rparr>],
                        nd_path = Some []\<rparr>\<rparr>\<close>

text \<open>
  The store holds a truncated text, \<^verbatim>\<open>{"x": 1\<close>, while the graph still has the node's
  row from the last text that parsed.
\<close>

definition envBad :: "int env" where
  \<open>envBad =
     \<lparr>opened = True, json = ''{"x": 1'',
      nodeData = Some \<lparr>nd_text = [\<lparr>row_key = Some ''x'', row_value = PNum 1, row_type = ''number''\<rparr>],
                        nd_path = Some []\<rparr>\<rparr>\<close>

text \<open>A session in editing mode with one edited field, the overlay empty.\<close>

definition editing :: "string \<Rightarrow> string \<Rightarrow> state" where
  "editing k v = \<lparr>isEditing = True, editedValues = [(k, v)], optimisticContent = None\<rparr>"

text \<open>
  The states of two runs: a save of \<^verbatim>\<open>b = 5\<close> on the node at \<^verbatim>\<open>["a"]\<close>, followed by
  a click on Edit; and a save of \<^verbatim>\<open>x = 2\<close> while the store holds the truncated text.
\<close>

definition afterSave :: state where
  "afterSave = run (handleSave sampleRuntime envA (editing ''b'' ''5'')) (editing ''b'' ''5'')"

definition afterEdit :: state where
  "afterEdit = run (handleEdit sampleRuntime envA afterSave) afterSave"

definition afterFailedSave :: state where
  "afterFailedSave =
     run (handleSave sampleRuntime envBad (editing ''x'' ''2'')) (editing ''x'' ''2'')"

text \<open>A projection read as a node again: each text is a string value.\<close>

definition asNode :: "(string \<times> string) list \<Rightarrow> 'n jsval" where
  "asNode kvs = JObj (map (\<lambda>(k, t). (k, JStr t)) kvs)"

section \<open>Properties\<close>

subsection \<open>Own properties\<close>

text \<open>
  What a write does to the lookup of each key, to the set of entries, and to the
  invariant of the property list.
\<close>

lemma arrayIndex_inj: "arrayIndex k = Some n \<Longrightarrow> arrayIndex k' = Some n \<Longrightarrow> k = k'"
  by (auto simp: arrayIndex_def Let_def split: if_splits)

lemma set_updateOwn: "set (updateOwn k v ps) \<subseteq> insert (k, v) (set ps)"
  by (induction ps) auto

lemma keys_updateOwn [simp]: "map fst (updateOwn k v ps) = map fst ps"
  by (induction ps) auto

lemma map_of_updateOwn: "map_of (updateOwn k v ps) = (if hasOwn k ps then (map_of ps)(k \<mapsto> v) else map_of ps)"
  by (induction ps) (auto simp: hasOwn_def fun_eq_iff)

lemma set_insertIndex [simp]: "set (insertIndex n k v ps) = insert (k, v) (set ps)"
  by (induction ps) (auto split: option.splits)

lemma map_of_insertIndex: "\<not> hasOwn k ps \<Longrightarrow> map_of (insertIndex n k v ps) = (map_of ps)(k \<mapsto> v)"
  by (induction ps) (auto simp: hasOwn_def fun_eq_iff split: option.splits)

lemma map_of_append_new: "\<not> hasOwn k ps \<Longrightarrow> map_of (ps @ [(k, v)]) = (map_of ps)(k \<mapsto> v)"
  by (induction ps) (auto simp: hasOwn_def fun_eq_iff)

lemma map_of_defineProp: "map_of (defineProp k v ps) = (map_of ps)(k \<mapsto> v)"
  by (simp add: defineProp_def map_of_updateOwn map_of_insertIndex map_of_append_new
      del: map_of_append split: option.splits)

lemma map_of_setProp_other: "k' \<noteq> k \<Longrightarrow> map_of (setProp k v ps) k' = map_of ps k'"
  by (cases "\<not> hasOwn k ps \<and> k = ''__proto__''") (simp_all add: setProp_def map_of_defineProp)

lemma map_of_setProp_same:
  "hasOwn k ps \<or> k \<noteq> ''__proto__'' \<Longrightarrow> map_of (setProp k v ps) k = Some v"
  by (cases "\<not> hasOwn k ps \<and> k = ''__proto__''") (auto simp: setProp_def map_of_defineProp)

lemma set_defineProp: "set (defineProp k v ps) \<subseteq> insert (k, v) (set ps)"
  using set_updateOwn[of k v ps] by (auto simp: defineProp_def split: option.splits)

lemma set_setProp: "set (setProp k v ps) \<subseteq> insert (k, v) (set ps)"
  using set_defineProp[of k v ps] by (auto simp: setProp_def)

lemma hasOwn_insertIndex [simp]: "hasOwn k' (insertIndex n k v ps) = (k' = k \<or> hasOwn k' ps)"
  by (auto simp: hasOwn_def)

lemma hasOwn_updateOwn [simp]: "hasOwn k' (updateOwn k v ps) = hasOwn k' ps"
  by (simp only: hasOwn_def keys_updateOwn)

lemma hasOwn_append [simp]: "hasOwn k' (ps @ [(k, v)]) = (k' = k \<or> hasOwn k' ps)"
  by (auto simp: hasOwn_def)

lemma hasOwn_defineProp: "hasOwn k' (defineProp k v ps) = (k' = k \<or> hasOwn k' ps)"
  by (auto simp: defineProp_def split: option.splits)

lemma hasOwn_setProp:
  "hasOwn k' (setProp k v ps) =
     (if \<not> hasOwn k ps \<and> k = ''__proto__'' then hasOwn k' ps else (k' = k \<or> hasOwn k' ps))"
  by (auto simp: setProp_def hasOwn_defineProp)

lemma noProto_setProp: "\<not> hasOwn ''__proto__'' ps \<Longrightarrow> \<not> hasOwn ''__proto__'' (setProp k v ps)"
  by (auto simp: hasOwn_setProp)

lemma keys_insertIndex_sorted:
  assumes "sorted_wrt keyBefore (map fst ps)" "arrayIndex k = Some n" "\<not> hasOwn k ps"
  shows "sorted_wrt keyBefore (map fst (insertIndex n k v ps))"
  using assms
proof (induction ps)
  case Nil
  then show ?case by simp
next
  case (Cons p ps)
  have nk: "fst p \<noteq> k" and nown: "\<not> hasOwn k ps"
    using Cons.prems(3) by (auto simp: hasOwn_def)
  show ?case
  proof (cases "arrayIndex (fst p)")
    case None
    then have "\<forall>x \<in> set (map fst ps). arrayIndex x = None"
      using Cons.prems(1) by (auto split: option.splits)
    with None Cons.prems show ?thesis by (auto split: option.splits)
  next
    case (Some m)
    show ?thesis
    proof (cases "m < n")
      case True
      with Some Cons nown show ?thesis
        by (auto simp: hasOwn_def split: option.splits)
    next
      case False
      have "m \<noteq> n" using Some Cons.prems(2) nk arrayIndex_inj by blast
      with False have lt: "n < m" by simp
      have "\<forall>x \<in> set (map fst ps). keyBefore k x"
      proof
        fix x assume "x \<in> set (map fst ps)"
        then have "keyBefore (fst p) x" using Cons.prems(1) by auto
        with Some lt Cons.prems(2) show "keyBefore k x"
          by (auto split: option.splits)
      qed
      with Some False lt Cons.prems show ?thesis by (auto split: option.splits)
    qed
  qed
qed

lemma distinct_insertIndex: "distinct (map fst ps) \<Longrightarrow> \<not> hasOwn k ps \<Longrightarrow> distinct (map fst (insertIndex n k v ps))"
  by (induction ps) (auto simp: hasOwn_def split: option.splits)

lemma ownOrder_defineProp: "ownOrder ps \<Longrightarrow> ownOrder (defineProp k v ps)"
proof (cases "hasOwn k ps")
  case True
  assume "ownOrder ps"
  with True show ?thesis by (simp add: ownOrder_def defineProp_def)
next
  case False
  assume o: "ownOrder ps"
  show ?thesis
  proof (cases "arrayIndex k")
    case None
    then have "\<forall>x. keyBefore x k" by (auto split: option.splits)
    with o False None show ?thesis
      by (auto simp: ownOrder_def defineProp_def hasOwn_def sorted_wrt_append)
  next
    case (Some n)
    with o False show ?thesis
      by (simp add: ownOrder_def defineProp_def keys_insertIndex_sorted distinct_insertIndex)
  qed
qed

lemma ownOrder_setProp: "ownOrder ps \<Longrightarrow> ownOrder (setProp k v ps)"
  by (simp add: setProp_def ownOrder_defineProp)

lemma insertIndex_end:
  "\<forall>p \<in> set ps. \<exists>m. arrayIndex (fst p) = Some m \<and> m < n \<Longrightarrow> insertIndex n k v ps = ps @ [(k, v)]"
  by (induction ps) auto

lemma setProp_end:
  assumes "ownOrder (ps @ [(k, v)])" "k \<noteq> ''__proto__''"
  shows "setProp k v' ps = ps @ [(k, v')]"
proof -
  have nown: "\<not> hasOwn k ps" using assms(1) by (auto simp: ownOrder_def hasOwn_def)
  have bef: "\<forall>p \<in> set ps. keyBefore (fst p) k"
    using assms(1) by (auto simp: ownOrder_def sorted_wrt_append)
  show ?thesis
  proof (cases "arrayIndex k")
    case None
    with nown assms(2) show ?thesis by (simp add: setProp_def defineProp_def)
  next
    case (Some n)
    have "\<forall>p \<in> set ps. \<exists>m. arrayIndex (fst p) = Some m \<and> m < n"
    proof
      fix p assume "p \<in> set ps"
      with bef have "keyBefore (fst p) k" by blast
      with Some show "\<exists>m. arrayIndex (fst p) = Some m \<and> m < n"
        by (auto split: option.splits)
    qed
    then have "insertIndex n k v' ps = ps @ [(k, v')]" by (rule insertIndex_end)
    with nown assms(2) Some show ?thesis by (simp add: setProp_def defineProp_def)
  qed
qed

subsection \<open>The loops over entries\<close>

text \<open>
  The two filters and the projection are the same loop: each entry that passes the test
  is assigned, under its key, to a fresh object. Every entry of the result comes from an
  entry of the input that passed; the result keeps the invariant of a property list and
  never has the key \<^verbatim>\<open>__proto__\<close>; and running the loop on such a list rebuilds it.
\<close>

lemma fold_setProp_sound:
  "(k, t) \<in> set (foldl (\<lambda>acc (key, v). if P v then setProp key (f v) acc else acc) acc entries)
   \<Longrightarrow> (k, t) \<in> set acc \<or> (\<exists>v. (k, v) \<in> set entries \<and> P v \<and> t = f v)"
proof (induction entries arbitrary: acc)
  case Nil
  then show ?case by simp
next
  case (Cons e entries)
  obtain key v where e: "e = (key, v)" by (cases e)
  let ?acc' = "if P v then setProp key (f v) acc else acc"
  from Cons.prems e have "(k, t) \<in> set (foldl (\<lambda>acc (key, v). if P v then setProp key (f v) acc else acc) ?acc' entries)"
    by simp
  from Cons.IH[OF this] show ?case
  proof
    assume "(k, t) \<in> set ?acc'"
    then show ?thesis using set_setProp[of key "f v" acc] e by (auto split: if_splits)
  next
    assume "\<exists>v. (k, v) \<in> set entries \<and> P v \<and> t = f v"
    then show ?thesis by auto
  qed
qed

lemma fold_setProp_ownOrder:
  "ownOrder acc \<Longrightarrow> ownOrder (foldl (\<lambda>acc (key, v). if P v then setProp key (f v) acc else acc) acc entries)"
proof (induction entries arbitrary: acc)
  case Nil
  then show ?case by simp
next
  case (Cons e entries)
  obtain key v where e: "e = (key, v)" by (cases e)
  have "ownOrder (if P v then setProp key (f v) acc else acc)"
    using Cons.prems by (simp add: ownOrder_setProp)
  from Cons.IH[OF this] show ?case using e by simp
qed

lemma fold_setProp_noProto:
  "\<not> hasOwn ''__proto__'' acc \<Longrightarrow>
   \<not> hasOwn ''__proto__'' (foldl (\<lambda>acc (key, v). if P v then setProp key (f v) acc else acc) acc entries)"
proof (induction entries arbitrary: acc)
  case Nil
  then show ?case by simp
next
  case (Cons e entries)
  obtain key v where e: "e = (key, v)" by (cases e)
  have "\<not> hasOwn ''__proto__'' (if P v then setProp key (f v) acc else acc)"
    using Cons.prems by (simp add: noProto_setProp)
  from Cons.IH[OF this] show ?case using e by simp
qed

lemma ownOrder_Nil [simp]: "ownOrder []"
  by (simp add: ownOrder_def)

lemma ownOrder_map [simp]: "ownOrder (map (\<lambda>(k, t). (k, h t)) r) = ownOrder r"
proof -
  have "map fst (map (\<lambda>(k, t). (k, h t)) r) = map fst r" by (induction r) auto
  then show ?thesis by (simp only: ownOrder_def)
qed

lemma hasOwn_map [simp]: "hasOwn k (map (\<lambda>(k, t). (k, h t)) r) = hasOwn k r"
proof -
  have "map fst (map (\<lambda>(k, t). (k, h t)) r) = map fst r" by (induction r) auto
  then show ?thesis by (simp only: hasOwn_def)
qed

lemma ownOrder_prefix: "ownOrder (r @ [x]) \<Longrightarrow> ownOrder r"
  by (auto simp: ownOrder_def sorted_wrt_append)

lemma fold_setProp_rebuild:
  assumes "ownOrder r" "\<not> hasOwn ''__proto__'' r" "\<forall>t. P (g t)"
  shows "foldl (\<lambda>acc (key, v). if P v then setProp key (f v) acc else acc) []
           (map (\<lambda>(k, t). (k, g t)) r) = map (\<lambda>(k, t). (k, f (g t))) r"
  using assms(1,2)
proof (induction r rule: rev_induct)
  case Nil
  then show ?case by simp
next
  case (snoc x r)
  obtain k t where x: "x = (k, t)" by (cases x)
  have o: "ownOrder r" using snoc.prems(1) by (rule ownOrder_prefix)
  have np: "\<not> hasOwn ''__proto__'' r" and kp: "k \<noteq> ''__proto__''"
    using snoc.prems(2) x by (auto simp: hasOwn_def)
  have "ownOrder (map (\<lambda>(k, t). (k, f (g t))) (r @ [x]))"
    using snoc.prems(1) by (simp only: ownOrder_map)
  then have "ownOrder (map (\<lambda>(k, t). (k, f (g t))) r @ [(k, f (g t))])"
    using x by simp
  then have "setProp k (f (g t)) (map (\<lambda>(k, t). (k, f (g t))) r)
               = map (\<lambda>(k, t). (k, f (g t))) r @ [(k, f (g t))]"
    using kp by (rule setProp_end)
  with snoc.IH[OF o np] x assms(3) show ?case by simp
qed

lemma hasOwn_Nil [simp]: "\<not> hasOwn k []"
  by (simp add: hasOwn_def)

lemma keyValues_ownOrder: "ownOrder (keyValues rt node) \<and> \<not> hasOwn ''__proto__'' (keyValues rt node)"
  by (cases node) (simp_all add: fold_setProp_ownOrder fold_setProp_noProto)

lemma mergeEdit_frame: "k \<noteq> fst kv \<Longrightarrow> map_of (mergeEdit rt obj kv) k = map_of obj k"
  by (simp add: mergeEdit_def map_of_setProp_other split: option.splits)

lemma mergeEdits_frame:
  "k \<notin> fst ` set edits \<Longrightarrow> map_of (foldl (mergeEdit rt) obj edits) k = map_of obj k"
proof (induction edits arbitrary: obj)
  case Nil
  then show ?case by simp
next
  case (Cons kv edits)
  have "map_of (foldl (mergeEdit rt) (mergeEdit rt obj kv) edits) k = map_of (mergeEdit rt obj kv) k"
    using Cons.prems by (intro Cons.IH) simp
  also have "\<dots> = map_of obj k"
    using Cons.prems by (intro mergeEdit_frame) simp
  finally show ?case by simp
qed

lemma keyValues_sound:
  assumes "distinct (map fst entries)" "(k, t) \<in> set (keyValues rt (JObj entries))"
  shows "\<exists>v. map_of entries k = Some v \<and> isPrimitive v \<and> t = valueText rt v"
proof -
  from assms(2) have "(k, t) \<in> set (foldl (\<lambda>acc (key, v).
      if isPrimitive v then setProp key (valueText rt v) acc else acc) [] entries)"
    by simp
  from fold_setProp_sound[OF this]
  obtain v where v: "(k, v) \<in> set entries" "isPrimitive v" "t = valueText rt v" by auto
  with assms(1) have "map_of entries k = Some v" by simp
  with v show ?thesis by blast
qed

lemma filterPrimitives_sound:
  assumes "distinct (map fst entries)" "(k, v) \<in> set (filterPrimitives entries)"
  shows "map_of entries k = Some v \<and> isPrimitive v"
proof -
  from assms(2) have "(k, v) \<in> set (foldl (\<lambda>acc (key, v).
      if isPrimitive v then setProp key ((\<lambda>x. x) v) acc else acc) [] entries)"
    by (simp add: filterPrimitives_def)
  from fold_setProp_sound[OF this]
  obtain w where w: "(k, w) \<in> set entries" "isPrimitive w" "v = w" by auto
  with assms(1) show ?thesis by simp
qed

lemma mergeEdits_frame':
  "k \<notin> fst ` set edits \<Longrightarrow> map_of (mergeEdits rt full edits) k = map_of (spread full) k"
  by (simp add: mergeEdits_def mergeEdits_frame)

lemma mergeEdit_same:
  "k \<noteq> ''__proto__'' \<Longrightarrow>
   map_of (mergeEdit rt obj (k, edited)) k =
     Some (case JSON_parse rt edited of Some p \<Rightarrow> p | None \<Rightarrow> JStr edited)"
  by (simp add: mergeEdit_def map_of_setProp_same split: option.splits)

lemma mergeEdits_entry:
  assumes "distinct (map fst edits)" "(k, edited) \<in> set edits" "k \<noteq> ''__proto__''"
  shows "map_of (foldl (mergeEdit rt) obj edits) k =
           Some (case JSON_parse rt edited of Some p \<Rightarrow> p | None \<Rightarrow> JStr edited)"
  using assms(1,2)
proof (induction edits arbitrary: obj)
  case Nil
  then show ?case by simp
next
  case (Cons kv edits)
  show ?case
  proof (cases "kv = (k, edited)")
    case True
    then have "k \<notin> fst ` set edits" using Cons.prems(1) by auto
    then have "map_of (foldl (mergeEdit rt) (mergeEdit rt obj kv) edits) k
                 = map_of (mergeEdit rt obj kv) k"
      by (rule mergeEdits_frame)
    with True show ?thesis using mergeEdit_same[OF assms(3), of rt obj edited] by simp
  next
    case False
    with Cons.prems have "distinct (map fst edits)" "(k, edited) \<in> set edits" by auto
    from Cons.IH[OF this] show ?thesis by simp
  qed
qed

subsection \<open>Walking and writing\<close>

text \<open>
  A walk that continues after \<^verbatim>\<open>undefined\<close> throws; a walk that has left the document
  does not come back to a node; a walk that starts in a string stays in strings. So when
  a path leads to an object of the document, the write of a new value at that path
  succeeds, and the same path in the new document leads to the new value.
\<close>

lemma walk_Undefined: "walk rt Undefined ss = Inr r \<Longrightarrow> ss = [] \<and> r = Undefined"
  by (cases ss) simp_all

lemma walk_Builtin: "walk rt (Builtin b) ss \<noteq> Inr (Node v)"
proof (induction ss arbitrary: b)
  case Nil
  show ?case by simp
next
  case (Cons s ss)
  show ?case
  proof (cases "Builtin_read rt b s")
    case (Inl e)
    then show ?thesis by simp
  next
    case (Inr r)
    show ?thesis
    proof (cases r)
      case None
      have "walk rt Undefined ss \<noteq> Inr (Node v)"
        using walk_Undefined[of rt ss "Node v"] by auto
      with Inr None show ?thesis by simp
    next
      case (Some b')
      with Inr Cons.IH[of b'] show ?thesis by simp
    qed
  qed
qed

lemma walk_inherited: "walk rt (inherited rt v k) ss \<noteq> Inr (Node w)"
proof (cases "Builtin_get rt v k")
  case None
  then show ?thesis using walk_Undefined[of rt ss "Node w"] by (auto simp: inherited_def)
next
  case (Some b)
  then show ?thesis using walk_Builtin[of rt b ss w] by (simp add: inherited_def)
qed

lemma getProp_inherited: "inherited rt v k \<noteq> Node w"
  by (simp add: inherited_def split: option.splits)

lemma getProp_Node:
  assumes "getProp rt (Node cur) s = Inr (Node child)"
  shows "(\<exists>ps. cur = JObj ps \<and> map_of ps (propKey s) = Some child) \<or>
         (\<exists>xs n. cur = JArr xs \<and> segIndex s = Some n \<and> n < length xs \<and> xs ! n = child) \<or>
         (\<exists>cs n. cur = JStr cs \<and> segIndex s = Some n \<and> n < length cs \<and> child = JStr [cs ! n])"
proof (cases cur)
  case JNull
  with assms show ?thesis by simp
next
  case (JBool b)
  with assms show ?thesis by (simp add: getProp_inherited)
next
  case (JNum n)
  with assms show ?thesis by (simp add: getProp_inherited)
next
  case (JStr cs)
  with assms show ?thesis
    by (auto simp: getProp_inherited split: option.splits if_splits)
next
  case (JArr xs)
  with assms show ?thesis
    by (auto simp: getProp_inherited split: option.splits if_splits)
next
  case (JObj ps)
  with assms show ?thesis
    by (auto simp: getProp_inherited split: option.splits)
qed

lemma walk_string:
  "walk rt (Node (JStr cs)) ss = Inr (Node P) \<Longrightarrow> \<exists>cs'. P = JStr cs'"
proof (induction ss arbitrary: cs)
  case Nil
  then show ?case by auto
next
  case (Cons s ss)
  obtain nxt where g: "getProp rt (Node (JStr cs)) s = Inr nxt"
    and w: "walk rt nxt ss = Inr (Node P)"
    using Cons.prems by (auto split: sum.splits)
  obtain child where nxt: "nxt = Node child"
    using w walk_Undefined[of rt ss "Node P"] walk_Builtin[of rt _ ss P] by (cases nxt) auto
  from getProp_Node[OF g[unfolded nxt]] obtain c where "child = JStr c" by auto
  with w nxt show ?case using Cons.IH by blast
qed

lemma hasOwn_map_of: "map_of ps k = Some v \<Longrightarrow> hasOwn k ps"
  by (auto simp: hasOwn_def dest: map_of_SomeD intro: rev_image_eqI)

lemma getProp_replaceChild:
  assumes "getProp rt (Node cur) s = Inr (Node child)" "\<forall>cs. cur \<noteq> JStr cs"
  shows "getProp rt (Node (replaceChild cur s child')) s = Inr (Node child')"
  using getProp_Node[OF assms(1)] assms(2)
  by (auto simp: map_of_updateOwn hasOwn_map_of)

lemma assignProp_existing:
  assumes "getProp rt (Node cur) s = Inr (Node (JObj es))"
  shows "\<exists>cur'. assignProp rt cur s M = Inr cur' \<and> getProp rt (Node cur') s = Inr (Node M)"
  using getProp_Node[OF assms]
  by (auto simp: map_of_setProp_same hasOwn_map_of)

lemma assign_existing:
  assumes "walk rt (Node cur) (pre @ [lastKey]) = Inr (Node (JObj es))"
  shows "\<exists>cur'. assignAtPath rt cur pre lastKey M = Inr cur' \<and>
                walk rt (Node cur') (pre @ [lastKey]) = Inr (Node M)"
  using assms
proof (induction pre arbitrary: cur)
  case Nil
  then have "getProp rt (Node cur) lastKey = Inr (Node (JObj es))"
    by (auto split: sum.splits)
  from assignProp_existing[OF this, of M] show ?case by auto
next
  case (Cons s ss)
  obtain nxt where g: "getProp rt (Node cur) s = Inr nxt"
    and w: "walk rt nxt (ss @ [lastKey]) = Inr (Node (JObj es))"
    using Cons.prems by (auto split: sum.splits)
  obtain child where nxt: "nxt = Node child"
    using w walk_Undefined[of rt "ss @ [lastKey]" "Node (JObj es)"]
      walk_Builtin[of rt _ "ss @ [lastKey]" "JObj es"]
    by (cases nxt) auto
  have nostr: "\<forall>cs. cur \<noteq> JStr cs"
  proof (intro allI notI)
    fix cs assume "cur = JStr cs"
    with Cons.prems obtain cs' where "JObj es = JStr cs'" using walk_string by blast
    then show False by simp
  qed
  from Cons.IH[of child] w nxt obtain child' where
    a: "assignAtPath rt child ss lastKey M = Inr child'" and
    w': "walk rt (Node child') (ss @ [lastKey]) = Inr (Node M)" by auto
  have "getProp rt (Node (replaceChild cur s child')) s = Inr (Node child')"
    using g nxt nostr by (intro getProp_replaceChild) auto
  with a w' g nxt show ?case by simp
qed

subsection \<open>The outcome of a save\<close>

lemma updateJsonAtPath_error:
  "updateJsonAtPath rt jsonString path newValue = Inl err \<Longrightarrow> err = Error ''Invalid JSON format''"
  by (auto simp: updateJsonAtPath_def split: option.splits if_splits sum.splits)

lemma handleSave_ok:
  "updateJsonAtPath rt (json e) (nodePath e) (mergedJson rt e st) = Inr u \<Longrightarrow>
   handleSave rt e st =
     [SetOptimisticContent (Some (optimisticView rt e st)), SetContents u True,
      SetIsEditing False, ToastSuccess ''JSON updated successfully'']"
  by (simp add: handleSave_def)

lemma handleSave_failed:
  "updateJsonAtPath rt (json e) (nodePath e) (mergedJson rt e st) = Inl err \<Longrightarrow>
   handleSave rt e st =
     [SetOptimisticContent (Some (optimisticView rt e st)), ToastError ''Invalid JSON format'']"
  using updateJsonAtPath_error[of rt "json e" "nodePath e" "mergedJson rt e st" err]
  by (simp add: handleSave_def)

subsection \<open>The sample runs\<close>

lemmas sample_defs =
  sampleRuntime_def sampleParse_def sampleTexts_def sampleValues_def docA_def nodeA_def docX_def
  quoted_def newline_def showInt_def showNat.simps

lemmas model_defs =
  handleSave_def optimisticView_def mergedJson_def mergedNode_def mergeEdits_def mergeEdit_def
  getFullNodeObject_def getFreshContent_def parseContentToKeyValues_def updateJsonAtPath_def
  filterPrimitives_def nodePath_def nodeText_def normalizeNodeData_def addRow_def
  assignRow_def inherited_def assignPrimitive_def resize_def
  setProp_def defineProp_def hasOwn_def arrayIndex_def natOfDigits_def
  handleEdit_def handleCancel_def handleClose_def run_def

lemmas eval_defs = model_defs sample_defs envA_def envX_def envBad_def editing_def

lemma write_A:
  \<open>updateJsonAtPath sampleRuntime (json envA) (nodePath envA)
      (mergedJson sampleRuntime envA (editing ''b'' ''5'')) =
    Inr ''{\<newline>  "a": {\<newline>    "b": 5,\<newline>    "c": [\<newline>      1,\<newline>      2\<newline>    ]\<newline>  }\<newline>}''\<close>
  by (simp add: eval_defs)

lemma view_A:
  \<open>optimisticView sampleRuntime envA (editing ''b'' ''5'') = ''{\<newline>  "b": 5\<newline>}''\<close>
  by (simp add: eval_defs)

lemma write_Bad:
  \<open>updateJsonAtPath sampleRuntime (json envBad) (nodePath envBad)
      (mergedJson sampleRuntime envBad (editing ''x'' ''2'')) = Inl (Error ''Invalid JSON format'')\<close>
  by (simp add: eval_defs)

lemma view_Bad:
  \<open>optimisticView sampleRuntime envBad (editing ''x'' ''2'') = ''{\<newline>  "x": 2\<newline>}''\<close>
  by (simp add: eval_defs)

lemma afterSave_eq:
  \<open>afterSave = \<lparr>isEditing = False, editedValues = [(''b'', ''5'')],
      optimisticContent = Some ''{\<newline>  "b": 5\<newline>}''\<rparr>\<close>
proof -
  note r = handleSave_ok[OF write_A, unfolded view_A]
  show ?thesis unfolding afterSave_def r by (simp add: run_def editing_def)
qed

lemma afterEdit_eq:
  \<open>afterEdit = \<lparr>isEditing = True, editedValues = [(''b'', ''5'')],
      optimisticContent = Some ''{\<newline>  "b": 5\<newline>}''\<rparr>\<close>
  by (simp add: afterEdit_def afterSave_eq eval_defs)

lemma afterFailedSave_eq:
  \<open>afterFailedSave = \<lparr>isEditing = True, editedValues = [(''x'', ''2'')],
      optimisticContent = Some ''{\<newline>  "x": 2\<newline>}''\<rparr>\<close>
  unfolding afterFailedSave_def handleSave_failed[OF write_Bad, unfolded view_Bad]
  by (simp add: run_def editing_def)

section \<open>The claims\<close>

text \<open>
  C1, as amended. In a save whose write succeeds, the handler first requests the overlay
  to hold the primitive-only view of the merged node, then calls
  \<^verbatim>\<open>updateJsonAtPath\<close> and hands its result to the store with the changes flag set,
  leaves editing mode and reports success; once the handler has returned, the overlay
  holds that view. (The claim as stated also says that the overlay is set only when the
  save succeeds; the example after the theorem shows a failed save that leaves it set.)
\<close>

theorem save_success_order:
  assumes "updateJsonAtPath rt (json e) (nodePath e) (mergedJson rt e st) = Inr u"
  shows "handleSave rt e st =
           [SetOptimisticContent (Some (optimisticView rt e st)), SetContents u True,
            SetIsEditing False, ToastSuccess ''JSON updated successfully''] \<and>
         run (handleSave rt e st) st =
           st\<lparr>isEditing := False, optimisticContent := Some (optimisticView rt e st)\<rparr>"
  using handleSave_ok[OF assms] by (simp add: run_def)

text \<open>
  The scenario of the specification: document \<^verbatim>\<open>{"a":{"b":1,"c":[1,2]}}\<close>, path
  \<^verbatim>\<open>["a"]\<close>, field \<^verbatim>\<open>b\<close> edited to \<^verbatim>\<open>5\<close>.
\<close>

theorem save_success_order_witness:
  \<open>handleSave sampleRuntime envA (editing ''b'' ''5'') =
     [SetOptimisticContent (Some ''{\<newline>  "b": 5\<newline>}''),
      SetContents ''{\<newline>  "a": {\<newline>    "b": 5,\<newline>    "c": [\<newline>      1,\<newline>      2\<newline>    ]\<newline>  }\<newline>}'' True,
      SetIsEditing False, ToastSuccess ''JSON updated successfully''] \<and>
   run (handleSave sampleRuntime envA (editing ''b'' ''5'')) (editing ''b'' ''5'') =
     \<lparr>isEditing = False, editedValues = [(''b'', ''5'')],
      optimisticContent = Some ''{\<newline>  "b": 5\<newline>}''\<rparr>\<close>
proof -
  note r = save_success_order[OF write_A, unfolded view_A]
  from r show ?thesis by (simp add: editing_def run_def)
qed

text \<open>
  C1 as stated fails: the store holds a text that does not parse, the user saves
  \<^verbatim>\<open>x = 2\<close>, the write fails, and the overlay is left holding the view computed by
  that save.
\<close>

theorem failed_save_leaves_overlay_holding:
  \<open>updateJsonAtPath sampleRuntime (json envBad) (nodePath envBad)
      (mergedJson sampleRuntime envBad (editing ''x'' ''2'')) = Inl (Error ''Invalid JSON format'') \<and>
   handleSave sampleRuntime envBad (editing ''x'' ''2'') =
     [SetOptimisticContent (Some ''{\<newline>  "x": 2\<newline>}''), ToastError ''Invalid JSON format''] \<and>
   optimisticContent afterFailedSave = Some ''{\<newline>  "x": 2\<newline>}''\<close>
  using handleSave_failed[OF write_Bad, unfolded view_Bad]
  by (simp add: afterFailedSave_eq write_Bad)

text \<open>
  C2, as amended. Closing leaves editing mode and clears the overlay, and so does the
  effect that runs when the modal opens; the edit buffer that closing leaves behind is
  replaced by the projection of the fresh content when the modal is next opened.
  Cancelling leaves editing mode and resets the edit buffer to the projection of the
  content on display; it does not touch the overlay.
\<close>

theorem close_and_cancel:
  "run handleClose st = st\<lparr>isEditing := False, optimisticContent := None\<rparr> \<and>
   run (openEffect (e\<lparr>opened := True\<rparr>)) st = st\<lparr>optimisticContent := None\<rparr> \<and>
   run (handleCancel rt e st) st =
     st\<lparr>isEditing := False,
        editedValues := parseContentToKeyValues rt (getFreshContent rt e st)\<rparr> \<and>
   editedValues (run (syncEffect rt (e\<lparr>opened := True\<rparr>) (run handleClose st))
                  (run handleClose st)) =
     parseContentToKeyValues rt (getFreshContent rt (e\<lparr>opened := True\<rparr>) (run handleClose st))"
  by (simp add: run_def handleClose_def handleCancel_def syncEffect_def openEffect_def)

text \<open>
  C2 as stated fails: after a successful save the overlay holds a value; the user clicks
  Edit and then Cancel, and the overlay still holds it.
\<close>

theorem cancel_leaves_overlay_holding:
  \<open>optimisticContent afterEdit = Some ''{\<newline>  "b": 5\<newline>}'' \<and>
   optimisticContent (run (handleCancel sampleRuntime envA afterEdit) afterEdit) =
     Some ''{\<newline>  "b": 5\<newline>}''\<close>
  by (simp add: afterEdit_eq handleCancel_def run_def)

text \<open>
  C3. For every node whose keys are unique: each entry of its projection is a key of the
  node whose value there is a primitive (never an array or an object); the text of a
  string is the string itself, the text of a number, a boolean or \<^verbatim>\<open>null\<close> is its JSON
  text. The filter of the read path keeps a key only with the primitive value the node
  has under it. A node that is not a mapping has the empty projection.
\<close>

theorem projection_sound:
  assumes "\<forall>entries. node = JObj entries \<longrightarrow> distinct (map fst entries)"
  shows "(\<forall>k t. (k, t) \<in> set (keyValues rt node) \<longrightarrow>
            (\<exists>entries v. node = JObj entries \<and> map_of entries k = Some v \<and> isPrimitive v \<and>
               t = (case v of JStr s \<Rightarrow> s | _ \<Rightarrow> JSON_stringify rt v))) \<and>
         (\<forall>entries k v. node = JObj entries \<and> (k, v) \<in> set (filterPrimitives entries) \<longrightarrow>
            map_of entries k = Some v \<and> isPrimitive v)"
proof (intro conjI allI impI)
  fix k t assume kt: "(k, t) \<in> set (keyValues rt node)"
  then obtain entries where node: "node = JObj entries"
    by (cases node) simp_all
  with assms have d: "distinct (map fst entries)" by simp
  from keyValues_sound[OF d] kt node
  obtain v where v: "map_of entries k = Some v" "isPrimitive v" "t = valueText rt v" by blast
  have "valueText rt v = (case v of JStr s \<Rightarrow> s | _ \<Rightarrow> JSON_stringify rt v)"
    by (cases v) simp_all
  with v(3) have "t = (case v of JStr s \<Rightarrow> s | _ \<Rightarrow> JSON_stringify rt v)"
    by (rule trans)
  with node v(1,2)
  show "\<exists>entries v. node = JObj entries \<and> map_of entries k = Some v \<and> isPrimitive v \<and>
          t = (case v of JStr s \<Rightarrow> s | _ \<Rightarrow> JSON_stringify rt v)"
    by blast
next
  fix entries k v
  assume a: "node = JObj entries \<and> (k, v) \<in> set (filterPrimitives entries)"
  with assms have d: "distinct (map fst entries)" by simp
  from filterPrimitives_sound[OF d] a show "map_of entries k = Some v" by blast
  from filterPrimitives_sound[OF d] a show "isPrimitive v" by blast
qed

text \<open>The node at \<^verbatim>\<open>["a"]\<close>: \<^verbatim>\<open>b\<close> is shown as \<^verbatim>\<open>1\<close>, the array \<^verbatim>\<open>c\<close> is left out.\<close>

theorem projection_sound_witness:
  \<open>keyValues sampleRuntime nodeA = [(''b'', ''1'')] \<and>
   filterPrimitives [(''b'', JNum 1), (''c'', JArr [JNum 1, JNum (2::int)])] = [(''b'', JNum 1)] \<and>
   (\<exists>entries v. nodeA = JObj entries \<and> map_of entries ''b'' = Some v \<and> isPrimitive v \<and>
      ''1'' = (case v of JStr s \<Rightarrow> s | _ \<Rightarrow> JSON_stringify sampleRuntime v))\<close>
proof -
  have kv: "keyValues sampleRuntime nodeA = [(''b'', ''1'')]"
    by (simp add: eval_defs)
  have f: "filterPrimitives [(''b'', JNum 1), (''c'', JArr [JNum 1, JNum (2::int)])] = [(''b'', JNum 1)]"
    by (simp add: eval_defs)
  have d: "\<forall>entries. nodeA = JObj entries \<longrightarrow> distinct (map fst entries)"
    by (simp add: nodeA_def)
  have m: "(''b'', ''1'') \<in> set (keyValues sampleRuntime nodeA)"
    by (simp add: kv)
  from projection_sound[OF d, of sampleRuntime] m
  have "\<exists>entries v. nodeA = JObj entries \<and> map_of entries ''b'' = Some v \<and> isPrimitive v \<and>
      ''1'' = (case v of JStr s \<Rightarrow> s | _ \<Rightarrow> JSON_stringify sampleRuntime v)"
    by blast
  with kv f show ?thesis by simp
qed

text \<open>
  C4. For a mapping node with unique keys and an edit buffer whose keys are keys of the
  node's projection: every field of the node whose value is an array or an object is, in
  the merged node, what it was; and so is every field that the edit buffer does not name.
\<close>

theorem merge_frame:
  assumes "distinct (map fst entries)"
      and "fst ` set edits \<subseteq> fst ` set (keyValues rt (JObj entries))"
  shows "(\<forall>k v. map_of entries k = Some v \<and> \<not> isPrimitive v \<longrightarrow>
            map_of (mergeEdits rt (Some (JObj entries)) edits) k = Some v) \<and>
         (\<forall>k. k \<notin> fst ` set edits \<longrightarrow>
            map_of (mergeEdits rt (Some (JObj entries)) edits) k = map_of entries k)"
proof (intro conjI allI impI)
  fix k assume "k \<notin> fst ` set edits"
  then show "map_of (mergeEdits rt (Some (JObj entries)) edits) k = map_of entries k"
    using mergeEdits_frame'[of k edits rt "Some (JObj entries)"] by simp
next
  fix k v assume kv: "map_of entries k = Some v \<and> \<not> isPrimitive v"
  have "k \<notin> fst ` set edits"
  proof
    assume "k \<in> fst ` set edits"
    with assms(2) obtain t where "(k, t) \<in> set (keyValues rt (JObj entries))" by force
    from keyValues_sound[OF assms(1) this] kv show False by auto
  qed
  then show "map_of (mergeEdits rt (Some (JObj entries)) edits) k = Some v"
    using mergeEdits_frame'[of k edits rt "Some (JObj entries)"] kv by simp
qed

text \<open>The node at \<^verbatim>\<open>["a"]\<close> with \<^verbatim>\<open>b\<close> edited to \<^verbatim>\<open>5\<close>: the array \<^verbatim>\<open>c\<close> is kept.\<close>

theorem merge_frame_witness:
  \<open>mergeEdits sampleRuntime (Some nodeA) [(''b'', ''5'')] =
     [(''b'', JNum 5), (''c'', JArr [JNum 1, JNum 2])] \<and>
   map_of (mergeEdits sampleRuntime (Some (JObj [(''b'', JNum 1), (''c'', JArr [JNum 1, JNum 2])]))
             [(''b'', ''5'')]) ''c'' = Some (JArr [JNum 1, JNum 2])\<close>
proof -
  let ?entries = "[(''b'', JNum 1), (''c'', JArr [JNum 1, JNum 2])] :: (string \<times> int jsval) list"
  have d: "distinct (map fst ?entries)" by simp
  have s: "fst ` set [(''b'', ''5'')] \<subseteq> fst ` set (keyValues sampleRuntime (JObj ?entries))"
    by (simp add: eval_defs)
  have c: "map_of ?entries ''c'' = Some (JArr [JNum 1, JNum 2]) \<and>
           \<not> isPrimitive (JArr [JNum 1, JNum 2] :: int jsval)"
    by simp
  have e: "mergeEdits sampleRuntime (Some nodeA) [(''b'', ''5'')] =
     [(''b'', JNum 5), (''c'', JArr [JNum 1, JNum 2])]"
    by (simp add: eval_defs)
  from merge_frame[OF d s] c
  have "map_of (mergeEdits sampleRuntime (Some (JObj ?entries)) [(''b'', ''5'')]) ''c''
          = Some (JArr [JNum 1, JNum 2])"
    by blast
  with e show ?thesis by simp
qed

text \<open>
  C5. When the write of a save fails, the handler shows the error toast with the message
  of the failure, the edit buffer is what it was, the editing flag is what it was (the
  session stays in editing mode), and the effect that resets the edit buffer does not
  fire while the session is editing.
\<close>

theorem save_failure_keeps_edits:
  assumes "updateJsonAtPath rt (json e) (nodePath e) (mergedJson rt e st) = Inl err"
  shows "handleSave rt e st =
           [SetOptimisticContent (Some (optimisticView rt e st)),
            ToastError ''Invalid JSON format''] \<and>
         editedValues (run (handleSave rt e st) st) = editedValues st \<and>
         isEditing (run (handleSave rt e st) st) = isEditing st \<and>
         (isEditing st \<longrightarrow> syncEffect rt e (run (handleSave rt e st) st) = [])"
  using handleSave_failed[OF assms] by (simp add: run_def syncEffect_def)

text \<open>The store holds a text that does not parse and the user saves \<^verbatim>\<open>x = 2\<close>.\<close>

theorem save_failure_keeps_edits_witness:
  \<open>handleSave sampleRuntime envBad (editing ''x'' ''2'') =
     [SetOptimisticContent (Some ''{\<newline>  "x": 2\<newline>}''), ToastError ''Invalid JSON format''] \<and>
   editedValues afterFailedSave = [(''x'', ''2'')] \<and>
   isEditing afterFailedSave \<and>
   syncEffect sampleRuntime envBad afterFailedSave = []\<close>
proof -
  note r = save_failure_keeps_edits[OF write_Bad, unfolded view_Bad]
  from r show ?thesis by (simp add: afterFailedSave_def editing_def run_def syncEffect_def)
qed

text \<open>
  C6. An edited field whose text does not parse is merged as the string of that text,
  and it does not make the save fail. When the document parses, the path of the node
  leads to a mapping of the document, and the platform parses the serialised merged node
  back to the merged node, the save hands a new document to the store and reports
  success; in the new document the path leads to the merged node, which has the string
  under the edited key. The key of an edit buffer is never \<^verbatim>\<open>__proto__\<close>, since the
  projection never has that key.
\<close>

theorem unparsable_edit_kept_as_string:
  assumes "(k, edited) \<in> set (editedValues st)"
      and "distinct (map fst (editedValues st))"
      and "k \<noteq> ''__proto__''"
      and "JSON_parse rt edited = None"
      and "JSON_parse rt (json e) = Some D"
      and "walk rt (Node D) (segments (nodePath e)) = Inr (Node (JObj entries))"
      and "JSON_parse rt (mergedJson rt e st) = Some (JObj (mergedNode rt e st))"
  shows "\<exists>D'. handleSave rt e st =
                [SetOptimisticContent (Some (optimisticView rt e st)),
                 SetContents (JSON_stringify rt D') True, SetIsEditing False,
                 ToastSuccess ''JSON updated successfully''] \<and>
              walk rt (Node D') (segments (nodePath e)) = Inr (Node (JObj (mergedNode rt e st))) \<and>
              map_of (mergedNode rt e st) k = Some (JStr edited)"
proof -
  let ?p = "segments (nodePath e)"
  let ?M = "JObj (mergedNode rt e st)"
  have m: "map_of (mergedNode rt e st) k = Some (JStr edited)"
    using mergeEdits_entry[OF assms(2) assms(1) assms(3), of rt "spread (getFullNodeObject rt e)"]
      assms(4)
    by (simp add: mergedNode_def mergeEdits_def)
  have "\<exists>D'. updateJsonAtPath rt (json e) (nodePath e) (mergedJson rt e st)
                = Inr (JSON_stringify rt D') \<and>
              walk rt (Node D') ?p = Inr (Node ?M)"
  proof (cases "noPath (nodePath e)")
    case True
    then have "?p = []" by (cases "nodePath e") simp_all
    then have "walk rt (Node ?M) ?p = Inr (Node ?M)" by simp
    moreover have "updateJsonAtPath rt (json e) (nodePath e) (mergedJson rt e st)
                     = Inr (JSON_stringify rt ?M)"
      using True assms(5,7) by (simp add: updateJsonAtPath_def)
    ultimately show ?thesis by blast
  next
    case False
    then have ne: "?p \<noteq> []" by (cases "nodePath e") simp_all
    then have split: "butlast ?p @ [last ?p] = ?p" by simp
    from assms(6) have "walk rt (Node D) (butlast ?p @ [last ?p]) = Inr (Node (JObj entries))"
      by (simp only: split)
    from assign_existing[OF this, of ?M] obtain D' where
      a: "assignAtPath rt D (butlast ?p) (last ?p) ?M = Inr D'" and
      w: "walk rt (Node D') (butlast ?p @ [last ?p]) = Inr (Node ?M)" by blast
    from w have w': "walk rt (Node D') ?p = Inr (Node ?M)" by (simp only: split)
    have "updateJsonAtPath rt (json e) (nodePath e) (mergedJson rt e st)
            = Inr (JSON_stringify rt D')"
      using False assms(5,7) a by (simp add: updateJsonAtPath_def)
    with w' show ?thesis by blast
  qed
  then obtain D' where
    u: "updateJsonAtPath rt (json e) (nodePath e) (mergedJson rt e st) = Inr (JSON_stringify rt D')"
    and w: "walk rt (Node D') ?p = Inr (Node ?M)" by blast
  from handleSave_ok[OF u] w m show ?thesis by blast
qed

text \<open>
  Two runs. The scenario of the specification: document \<^verbatim>\<open>{"x":5}\<close>, the empty path,
  \<^verbatim>\<open>x\<close> edited to \<^verbatim>\<open>hello\<close>; the new document is \<^verbatim>\<open>{"x":"hello"}\<close>. And the node at
  \<^verbatim>\<open>["a"]\<close> of \<^verbatim>\<open>{"a":{"b":1,"c":[1,2]}}\<close> with \<^verbatim>\<open>b\<close> edited to \<^verbatim>\<open>hello\<close>; the new
  document is \<^verbatim>\<open>{"a":{"b":"hello","c":[1,2]}}\<close>.
\<close>

theorem unparsable_edit_kept_as_string_witness:
  \<open>JSON_parse sampleRuntime ''hello'' = None \<and>
   handleSave sampleRuntime envX (editing ''x'' ''hello'') =
     [SetOptimisticContent (Some ''{\<newline>  "x": "hello"\<newline>}''),
      SetContents ''{\<newline>  "x": "hello"\<newline>}'' True,
      SetIsEditing False, ToastSuccess ''JSON updated successfully''] \<and>
   map_of (mergedNode sampleRuntime envX (editing ''x'' ''hello'')) ''x'' = Some (JStr ''hello'') \<and>
   handleSave sampleRuntime envA (editing ''b'' ''hello'') =
     [SetOptimisticContent (Some ''{\<newline>  "b": "hello"\<newline>}''),
      SetContents ''{\<newline>  "a": {\<newline>    "b": "hello",\<newline>    "c": [\<newline>      1,\<newline>      2\<newline>    ]\<newline>  }\<newline>}'' True,
      SetIsEditing False, ToastSuccess ''JSON updated successfully''] \<and>
   map_of (mergedNode sampleRuntime envA (editing ''b'' ''hello'')) ''b'' = Some (JStr ''hello'') \<and>
   (\<exists>D'. handleSave sampleRuntime envA (editing ''b'' ''hello'') =
            [SetOptimisticContent (Some ''{\<newline>  "b": "hello"\<newline>}''),
             SetContents (JSON_stringify sampleRuntime D') True, SetIsEditing False,
             ToastSuccess ''JSON updated successfully''] \<and>
          walk sampleRuntime (Node D') [Key ''a''] =
            Inr (Node (JObj [(''b'', JStr ''hello''), (''c'', JArr [JNum 1, JNum 2])])))\<close>
proof -
  have 4: "JSON_parse sampleRuntime ''hello'' = None" by (simp add: sample_defs)
  have x: \<open>handleSave sampleRuntime envX (editing ''x'' ''hello'') =
     [SetOptimisticContent (Some ''{\<newline>  "x": "hello"\<newline>}''),
      SetContents ''{\<newline>  "x": "hello"\<newline>}'' True,
      SetIsEditing False, ToastSuccess ''JSON updated successfully''] \<and>
    map_of (mergedNode sampleRuntime envX (editing ''x'' ''hello'')) ''x'' = Some (JStr ''hello'')\<close>
  proof -
    let ?st = "editing ''x'' ''hello''"
    have 1: "(''x'', ''hello'') \<in> set (editedValues ?st)" by (simp add: editing_def)
    have 2: "distinct (map fst (editedValues ?st))" by (simp add: editing_def)
    have 3: "''x'' \<noteq> ''__proto__''" by simp
    have 5: "JSON_parse sampleRuntime (json envX) = Some docX" by (simp add: eval_defs)
    have 6: "walk sampleRuntime (Node docX) (segments (nodePath envX)) =
               Inr (Node (JObj [(''x'', JNum 5)]))"
      by (simp add: envX_def nodePath_def docX_def)
    have mn: "mergedNode sampleRuntime envX ?st = [(''x'', JStr ''hello'')]"
      by (simp add: eval_defs)
    have 7: "JSON_parse sampleRuntime (mergedJson sampleRuntime envX ?st) =
               Some (JObj (mergedNode sampleRuntime envX ?st))"
      unfolding mergedJson_def mn by (simp add: sample_defs)
    have v: \<open>optimisticView sampleRuntime envX ?st = ''{\<newline>  "x": "hello"\<newline>}''\<close>
      by (simp add: eval_defs)
    have s: "segments (nodePath envX) = []" by (simp add: envX_def nodePath_def)
    from unparsable_edit_kept_as_string[OF 1 2 3 4 5 6 7, unfolded v mn s]
    obtain D' where
      h: \<open>handleSave sampleRuntime envX ?st =
            [SetOptimisticContent (Some ''{\<newline>  "x": "hello"\<newline>}''),
             SetContents (JSON_stringify sampleRuntime D') True, SetIsEditing False,
             ToastSuccess ''JSON updated successfully'']\<close>
      and w: "walk sampleRuntime (Node D') [] = Inr (Node (JObj [(''x'', JStr ''hello'')]))"
      and m: "map_of [(''x'', JStr ''hello'')] ''x'' = Some (JStr ''hello'' :: int jsval)"
      by blast
    from w have "D' = JObj [(''x'', JStr ''hello'')]" by simp
    with h mn show ?thesis by (simp add: sample_defs)
  qed
  have a: \<open>handleSave sampleRuntime envA (editing ''b'' ''hello'') =
     [SetOptimisticContent (Some ''{\<newline>  "b": "hello"\<newline>}''),
      SetContents ''{\<newline>  "a": {\<newline>    "b": "hello",\<newline>    "c": [\<newline>      1,\<newline>      2\<newline>    ]\<newline>  }\<newline>}'' True,
      SetIsEditing False, ToastSuccess ''JSON updated successfully'']\<close>
    by (simp add: eval_defs)
  have b: \<open>map_of (mergedNode sampleRuntime envA (editing ''b'' ''hello'')) ''b'' = Some (JStr ''hello'') \<and>
   (\<exists>D'. handleSave sampleRuntime envA (editing ''b'' ''hello'') =
            [SetOptimisticContent (Some ''{\<newline>  "b": "hello"\<newline>}''),
             SetContents (JSON_stringify sampleRuntime D') True, SetIsEditing False,
             ToastSuccess ''JSON updated successfully''] \<and>
          walk sampleRuntime (Node D') [Key ''a''] =
            Inr (Node (JObj [(''b'', JStr ''hello''), (''c'', JArr [JNum 1, JNum 2])])))\<close>
  proof -
    let ?st = "editing ''b'' ''hello''"
    have 1: "(''b'', ''hello'') \<in> set (editedValues ?st)" by (simp add: editing_def)
    have 2: "distinct (map fst (editedValues ?st))" by (simp add: editing_def)
    have 3: "''b'' \<noteq> ''__proto__''" by simp
    have 5: "JSON_parse sampleRuntime (json envA) = Some docA" by (simp add: eval_defs)
    have 6: "walk sampleRuntime (Node docA) (segments (nodePath envA)) =
               Inr (Node (JObj [(''b'', JNum 1), (''c'', JArr [JNum 1, JNum 2])]))"
      by (simp add: envA_def nodePath_def docA_def nodeA_def)
    have mn: "mergedNode sampleRuntime envA ?st =
                [(''b'', JStr ''hello''), (''c'', JArr [JNum 1, JNum 2])]"
      by (simp add: eval_defs)
    have 7: "JSON_parse sampleRuntime (mergedJson sampleRuntime envA ?st) =
               Some (JObj (mergedNode sampleRuntime envA ?st))"
      unfolding mergedJson_def mn by (simp add: sample_defs)
    have v: \<open>optimisticView sampleRuntime envA ?st = ''{\<newline>  "b": "hello"\<newline>}''\<close>
      by (simp add: eval_defs)
    have s: "segments (nodePath envA) = [Key ''a'']" by (simp add: envA_def nodePath_def)
    note r = unparsable_edit_kept_as_string[OF 1 2 3 4 5 6 7, unfolded v s]
    from r show ?thesis unfolding mn by blast
  qed
  from 4 x a b show ?thesis by blast
qed

text \<open>
  C7, as amended. When the document text does not parse, the read returns a string and
  raises nothing. With the overlay empty it is the normalised form of the rows of the
  selected node, and \<^verbatim>\<open>{}\<close> when no node is selected. With the overlay holding a
  value, it is the held value.
\<close>

theorem read_of_invalid_document:
  assumes "JSON_parse rt (json e) = None"
  shows "getFreshContent rt e st =
           (if truthy (optimisticContent st) then optimisticContent st
            else Some (normalizeNodeData rt (nodeText e))) \<and>
         getFreshContent rt e st \<noteq> None \<and>
         (nodeData e = None \<and> \<not> truthy (optimisticContent st) \<longrightarrow>
            getFreshContent rt e st = Some ''{}'')"
proof -
  have 1: "getFreshContent rt e st =
           (if truthy (optimisticContent st) then optimisticContent st
            else Some (normalizeNodeData rt (nodeText e)))"
    using assms by (simp add: getFreshContent_def)
  have 2: "truthy c \<Longrightarrow> c \<noteq> None" for c :: "string option"
    by (cases c) simp_all
  have 3: "nodeData e = None \<Longrightarrow> normalizeNodeData rt (nodeText e) = ''{}''"
    by (simp add: nodeText_def normalizeNodeData_def)
  from 1 2 3 show ?thesis by auto
qed

text \<open>
  The store holds the truncated text and the overlay is empty: the read shows the row of
  the node, \<^verbatim>\<open>x = 1\<close>, and the projection offers it for editing.
\<close>

theorem read_of_invalid_document_witness:
  \<open>JSON_parse sampleRuntime (json envBad) = None \<and>
   getFreshContent sampleRuntime envBad (editing ''x'' ''1'') = Some ''{\<newline>  "x": 1\<newline>}'' \<and>
   parseContentToKeyValues sampleRuntime (getFreshContent sampleRuntime envBad (editing ''x'' ''1''))
     = [(''x'', ''1'')]\<close>
proof -
  have 1: "JSON_parse sampleRuntime (json envBad) = None" by (simp add: eval_defs)
  have n: \<open>normalizeNodeData sampleRuntime (nodeText envBad) = ''{\<newline>  "x": 1\<newline>}''\<close>
    by (simp add: eval_defs)
  note r = read_of_invalid_document[OF 1, of "editing ''x'' ''1''", unfolded n]
  from r have g: \<open>getFreshContent sampleRuntime envBad (editing ''x'' ''1'') =
      Some ''{\<newline>  "x": 1\<newline>}''\<close>
    by (simp add: editing_def)
  have \<open>parseContentToKeyValues sampleRuntime (Some ''{\<newline>  "x": 1\<newline>}'') = [(''x'', ''1'')]\<close>
    by (simp add: eval_defs)
  with 1 g show ?thesis by simp
qed

text \<open>
  C7 as stated fails: after the failed save of \<^verbatim>\<open>x = 2\<close>, the store still holds the
  text that does not parse and the node's row still says \<^verbatim>\<open>x = 1\<close>, but the read
  returns the overlay, \<^verbatim>\<open>x = 2\<close>.
\<close>

theorem read_returns_overlay_not_snapshot:
  \<open>JSON_parse sampleRuntime (json envBad) = None \<and>
   normalizeNodeData sampleRuntime (nodeText envBad) = ''{\<newline>  "x": 1\<newline>}'' \<and>
   getFreshContent sampleRuntime envBad afterFailedSave = Some ''{\<newline>  "x": 2\<newline>}''\<close>
  unfolding afterFailedSave_eq by (simp add: eval_defs)

text \<open>
  C8. For a document text that parses to \<open>D\<close> and a new value text that parses to \<open>V\<close>,
  a write at the empty (or absent) path returns the serialisation of \<open>V\<close>: the new
  document is \<open>V\<close>, whatever \<open>D\<close> is, and no path is walked.
\<close>

theorem root_write:
  assumes "JSON_parse rt jsonString = Some D" "JSON_parse rt newValue = Some V" "noPath path"
  shows "updateJsonAtPath rt jsonString path newValue = Inr (JSON_stringify rt V)"
  using assms by (simp add: updateJsonAtPath_def)

theorem root_write_witness:
  \<open>updateJsonAtPath sampleRuntime ''{"x":5}'' (Some []) ''{\<newline>  "x": "hello"\<newline>}'' =
     Inr ''{\<newline>  "x": "hello"\<newline>}'' \<and>
   updateJsonAtPath sampleRuntime ''{"a":{"b":1,"c":[1,2]}}'' None ''5'' = Inr ''5''\<close>
proof -
  have 1: \<open>JSON_parse sampleRuntime ''{"x":5}'' = Some docX\<close> by (simp add: sample_defs)
  have 2: \<open>JSON_parse sampleRuntime ''{\<newline>  "x": "hello"\<newline>}'' = Some (JObj [(''x'', JStr ''hello'')])\<close>
    by (simp add: sample_defs)
  have 3: "noPath (Some [])" by simp
  have p: \<open>JSON_stringify sampleRuntime (JObj [(''x'', JStr ''hello'')]) = ''{\<newline>  "x": "hello"\<newline>}''\<close>
    by (simp add: sample_defs)
  have 4: \<open>JSON_parse sampleRuntime ''{"a":{"b":1,"c":[1,2]}}'' = Some docA\<close>
    by (simp add: sample_defs)
  have 5: \<open>JSON_parse sampleRuntime ''5'' = Some (JNum 5)\<close> by (simp add: sample_defs)
  have 6: "noPath None" by simp
  have q: \<open>JSON_stringify sampleRuntime (JNum 5) = ''5''\<close> by (simp add: sample_defs)
  from root_write[OF 1 2 3, unfolded p] root_write[OF 4 5 6, unfolded q] show ?thesis by simp
qed

text \<open>
  C9. The projection is idempotent: the projection of a node, read as a node whose
  values are the texts, has itself as its projection, with the same keys in the same
  order.
\<close>

theorem projection_idempotent:
  "keyValues rt (asNode (keyValues rt node)) = keyValues rt node"
proof -
  let ?r = "keyValues rt node"
  have "foldl (\<lambda>acc (key, v). if isPrimitive v then setProp key (valueText rt v) acc else acc) []
           (map (\<lambda>(k, t). (k, JStr t)) ?r) = map (\<lambda>(k, t). (k, valueText rt (JStr t))) ?r"
    using keyValues_ownOrder[of rt node] by (intro fold_setProp_rebuild) auto
  then show ?thesis by (simp add: asNode_def)
qed

text \<open>
  C10. A write whose path ends at a key that the parent mapping does not have should
  insert the key with the new value, and for the key \<^verbatim>\<open>d\<close> of the node at \<^verbatim>\<open>["a"]\<close>
  the code does. For the key \<^verbatim>\<open>__proto__\<close>, which the node does not have either, the
  assignment of line 51 reaches the accessor of \<^verbatim>\<open>Object.prototype\<close>: the write returns
  normally and the document it returns is the old one, with no key inserted. The same
  happens when the path goes on through \<^verbatim>\<open>__proto__\<close>: the walk leaves the document,
  the assignment lands on \<^verbatim>\<open>Object.prototype\<close>, and the old document is returned.
\<close>

theorem write_at_proto_inserts_nothing:
  \<open>walk sampleRuntime (Node docA) [Key ''a''] = Inr (Node nodeA) \<and>
   \<not> hasOwn ''d'' [(''b'', JNum 1), (''c'', JArr [JNum 1, JNum (2::int)])] \<and>
   updateJsonAtPath sampleRuntime ''{"a":{"b":1,"c":[1,2]}}'' (Some [Key ''a'', Key ''d'']) ''1'' =
     Inr ''{\<newline>  "a": {\<newline>    "b": 1,\<newline>    "c": [\<newline>      1,\<newline>      2\<newline>    ],\<newline>    "d": 1\<newline>  }\<newline>}'' \<and>
   \<not> hasOwn ''__proto__'' [(''b'', JNum 1), (''c'', JArr [JNum 1, JNum (2::int)])] \<and>
   updateJsonAtPath sampleRuntime ''{"a":{"b":1,"c":[1,2]}}'' (Some [Key ''a'', Key ''__proto__'']) ''1'' =
     Inr ''{\<newline>  "a": {\<newline>    "b": 1,\<newline>    "c": [\<newline>      1,\<newline>      2\<newline>    ]\<newline>  }\<newline>}'' \<and>
   updateJsonAtPath sampleRuntime ''{"a":{"b":1,"c":[1,2]}}''
       (Some [Key ''a'', Key ''__proto__'', Key ''d'']) ''1'' =
     Inr ''{\<newline>  "a": {\<newline>    "b": 1,\<newline>    "c": [\<newline>      1,\<newline>      2\<newline>    ]\<newline>  }\<newline>}'' \<and>
   JSON_stringify sampleRuntime docA =
     ''{\<newline>  "a": {\<newline>    "b": 1,\<newline>    "c": [\<newline>      1,\<newline>      2\<newline>    ]\<newline>  }\<newline>}''\<close>
  by (simp add: eval_defs)

end
